theory Spec2Isabelle
  imports Main "HOL-Library.Word" "HOL-Library.AList"
begin

section \<open>Bytes, errors and the library primitives\<close>

text \<open>
  The module \<^verbatim>\<open>acapy_wallet_upgrade/strategies.py\<close> works on Python \<^verbatim>\<open>bytes\<close> and
  \<^verbatim>\<open>str\<close> values. Bytes are lists of 8-bit words, text is \<open>string\<close>.
  Every exception of the source is a value of \<open>error\<close>; a function that can raise
  returns \<open>error + 'a\<close> with \<open>Inl\<close> for the exception.
\<close>

type_synonym byte = "8 word"
type_synonym bytes = "byte list"

datatype error =
    TypeError
  | ValueError
  | IndexError
  | OverflowError
  | CryptoError
  | Base64Error
  | JSONDecodeError
  | UpgradeError string
  | PyException string

text \<open>
  The cryptographic and encoding primitives come from libraries outside the repository
  (\<^verbatim>\<open>hmac\<close>/\<^verbatim>\<open>hashlib\<close>, PyNaCl, \<^verbatim>\<open>base64\<close>). They are parameters of the model:
  \<^item> \<open>hmac_sha256 key msg\<close> is \<^verbatim>\<open>hmac.HMAC(key, msg, digestmod=hashlib.sha256).digest()\<close>;
  \<^item> \<open>aead_encrypt message nonce key\<close> is
    \<^verbatim>\<open>nacl.bindings.crypto_aead_chacha20poly1305_ietf_encrypt(message, None, nonce, key)\<close>;
  \<^item> \<open>aead_decrypt ciphertext nonce key\<close> is
    \<^verbatim>\<open>nacl.bindings.crypto_aead_chacha20poly1305_ietf_decrypt(ciphertext, None, nonce, key)\<close>;
  \<^item> \<open>b64decode\<close> is \<^verbatim>\<open>base64.b64decode\<close>.
\<close>

record prims =
  hmac_sha256 :: "bytes \<Rightarrow> bytes \<Rightarrow> bytes"
  aead_encrypt :: "bytes \<Rightarrow> bytes \<Rightarrow> bytes \<Rightarrow> error + bytes"
  aead_decrypt :: "bytes \<Rightarrow> bytes \<Rightarrow> bytes \<Rightarrow> error + bytes"
  b64decode :: "bytes \<Rightarrow> error + bytes"

definition CHACHAPOLY_KEY_LEN :: nat where
  "CHACHAPOLY_KEY_LEN = 32"

definition CHACHAPOLY_NONCE_LEN :: nat where
  "CHACHAPOLY_NONCE_LEN = 12"

definition CHACHAPOLY_TAG_LEN :: nat where
  "CHACHAPOLY_TAG_LEN = 16"

definition ENCRYPTED_KEY_LEN :: nat where
  "ENCRYPTED_KEY_LEN = CHACHAPOLY_NONCE_LEN + CHACHAPOLY_KEY_LEN + CHACHAPOLY_TAG_LEN"

text \<open>
  The documented contract of the two libraries, used as a hypothesis where a claim
  depends on it: with a 12-byte nonce and a 32-byte key, encryption returns the
  ciphertext followed by a 16-byte tag, and decryption with the same nonce and key
  gives the message back; an HMAC-SHA-256 digest has 32 bytes.
\<close>

definition aead_contract :: "prims \<Rightarrow> bool" where
  "aead_contract P \<longleftrightarrow>
     (\<forall>m n k. length n = CHACHAPOLY_NONCE_LEN \<and> length k = CHACHAPOLY_KEY_LEN \<longrightarrow>
        (\<exists>ct. aead_encrypt P m n k = Inr ct
            \<and> length ct = length m + CHACHAPOLY_TAG_LEN
            \<and> aead_decrypt P ct n k = Inr m))"

definition hmac_contract :: "prims \<Rightarrow> bool" where
  "hmac_contract P \<longleftrightarrow> (\<forall>k m. length (hmac_sha256 P k m) = 32)"

text \<open>
  \<^verbatim>\<open>os.urandom(n)\<close> reads the operating system's random source. The source of
  randomness is an explicit input: an infinite sequence of bytes, of which each call
  takes the next \<open>n\<close>.
\<close>

type_synonym entropy = "nat \<Rightarrow> byte"

definition urandom :: "nat \<Rightarrow> entropy \<Rightarrow> bytes \<times> entropy" where
  "urandom n e = (map e [0..<n], \<lambda>i. e (i + n))"

section \<open>The merged-ciphertext codec\<close>

text \<open>
  \<^verbatim>\<open>Strategy.encrypt_merged(message, my_key, hmac_key=None)\<close>. The test
  \<^verbatim>\<open>if hmac_key:\<close> is Python truthiness: \<^verbatim>\<open>None\<close> and the empty byte string both
  take the random branch.
\<close>

definition encrypt_merged ::
  "prims \<Rightarrow> bytes \<Rightarrow> bytes \<Rightarrow> bytes option \<Rightarrow> entropy \<Rightarrow> error + (bytes \<times> entropy)" where
  "encrypt_merged P message my_key hmac_key e =
     (let (nonce, e') =
        (case hmac_key of
           None \<Rightarrow> urandom CHACHAPOLY_NONCE_LEN e
         | Some hk \<Rightarrow>
             if hk \<noteq> [] then (take CHACHAPOLY_NONCE_LEN (hmac_sha256 P hk message), e)
             else urandom CHACHAPOLY_NONCE_LEN e)
      in case aead_encrypt P message nonce my_key of
           Inl err \<Rightarrow> Inl err
         | Inr ciphertext \<Rightarrow> Inr (nonce @ ciphertext, e'))"

text \<open>\<^verbatim>\<open>Strategy.decrypt_merged(enc_value, key, b64=False)\<close>.\<close>

definition decrypt_merged :: "prims \<Rightarrow> bytes \<Rightarrow> bytes \<Rightarrow> bool \<Rightarrow> error + bytes" where
  "decrypt_merged P enc_value key b64 =
     (case (if b64 then b64decode P enc_value else Inr enc_value) of
        Inl err \<Rightarrow> Inl err
      | Inr ev \<Rightarrow>
          aead_decrypt P (drop CHACHAPOLY_NONCE_LEN ev) (take CHACHAPOLY_NONCE_LEN ev) key)"

section \<open>A small instance of the primitives\<close>

text \<open>
  A stand-in for the libraries that satisfies their contract, used to run the model on
  concrete inputs: the digest is the first 32 bytes of key, message and padding; the
  cipher leaves the message as it is and appends the first 16 key bytes as the tag.
  Like PyNaCl it raises \<^verbatim>\<open>TypeError\<close> on a nonce that is not 12 bytes or a key that
  is not 32 bytes, and \<^verbatim>\<open>CryptoError\<close> on a tag that does not verify.
\<close>

definition stub_hmac :: "bytes \<Rightarrow> bytes \<Rightarrow> bytes" where
  "stub_hmac k m = take 32 (k @ m @ replicate 32 0)"

definition stub_encrypt :: "bytes \<Rightarrow> bytes \<Rightarrow> bytes \<Rightarrow> error + bytes" where
  "stub_encrypt m n k =
     (if length n \<noteq> 12 \<or> length k \<noteq> 32 then Inl TypeError else Inr (m @ take 16 k))"

definition stub_decrypt :: "bytes \<Rightarrow> bytes \<Rightarrow> bytes \<Rightarrow> error + bytes" where
  "stub_decrypt c n k =
     (if length n \<noteq> 12 \<or> length k \<noteq> 32 then Inl TypeError
      else if 16 \<le> length c \<and> drop (length c - 16) c = take 16 k
           then Inr (take (length c - 16) c)
      else Inl CryptoError)"

definition stub_prims :: prims where
  "stub_prims = \<lparr> hmac_sha256 = stub_hmac, aead_encrypt = stub_encrypt,
                  aead_decrypt = stub_decrypt, b64decode = Inr \<rparr>"

lemma stub_prims_simps [simp]:
  "hmac_sha256 stub_prims = stub_hmac"
  "aead_encrypt stub_prims = stub_encrypt"
  "aead_decrypt stub_prims = stub_decrypt"
  "b64decode stub_prims = Inr"
  by (simp_all add: stub_prims_def)

lemma stub_aead_contract: "aead_contract stub_prims"
  by (simp add: aead_contract_def stub_encrypt_def stub_decrypt_def
      CHACHAPOLY_NONCE_LEN_def CHACHAPOLY_KEY_LEN_def CHACHAPOLY_TAG_LEN_def)

lemma stub_hmac_contract: "hmac_contract stub_prims"
  by (simp add: hmac_contract_def stub_hmac_def) arith

section \<open>Round trip of the merged codec\<close>

lemma length_urandom: "length (fst (urandom n e)) = n"
  by (simp add: urandom_def)

lemma encrypt_merged_nonce_length:
  assumes "hmac_contract P"
  shows "length (fst (case hk of
           None \<Rightarrow> urandom CHACHAPOLY_NONCE_LEN e
         | Some h \<Rightarrow>
             if h \<noteq> [] then (take CHACHAPOLY_NONCE_LEN (hmac_sha256 P h M), e)
             else urandom CHACHAPOLY_NONCE_LEN e)) = CHACHAPOLY_NONCE_LEN"
  using assms
  by (auto simp: hmac_contract_def length_urandom CHACHAPOLY_NONCE_LEN_def split: option.splits)

text \<open>
  Claim C1. For every message \<open>M\<close> and every 32-byte key \<open>K\<close>, with or without an
  HMAC key, \<open>encrypt_merged\<close> returns a blob of the form nonce, then ciphertext and
  tag as the AEAD primitive returns them, with a 12-byte nonce, and \<open>decrypt_merged\<close>
  of that blob under the same key gives \<open>M\<close> back. The AEAD and HMAC primitives are
  assumed to meet their library contract.
\<close>

theorem encrypt_merged_roundtrip:
  assumes "aead_contract P" and "hmac_contract P" and "length K = 32"
  shows "\<exists>nonce ct e'.
           encrypt_merged P M K hk e = Inr (nonce @ ct, e')
         \<and> length nonce = 12
         \<and> aead_encrypt P M nonce K = Inr ct
         \<and> length ct = length M + 16
         \<and> decrypt_merged P (nonce @ ct) K False = Inr M"
proof -
  define ne where "ne = (case hk of
           None \<Rightarrow> urandom CHACHAPOLY_NONCE_LEN e
         | Some h \<Rightarrow>
             if h \<noteq> [] then (take CHACHAPOLY_NONCE_LEN (hmac_sha256 P h M), e)
             else urandom CHACHAPOLY_NONCE_LEN e)"
  obtain nonce e' where ne: "ne = (nonce, e')" by (cases ne)
  have "length (fst ne) = CHACHAPOLY_NONCE_LEN"
    unfolding ne_def using assms(2) by (rule encrypt_merged_nonce_length)
  with ne have ln: "length nonce = CHACHAPOLY_NONCE_LEN" by simp
  from assms(3) have lk: "length K = CHACHAPOLY_KEY_LEN"
    by (simp add: CHACHAPOLY_KEY_LEN_def)
  from assms(1) ln lk obtain ct where
    enc: "aead_encrypt P M nonce K = Inr ct" and
    lct: "length ct = length M + CHACHAPOLY_TAG_LEN" and
    dec: "aead_decrypt P ct nonce K = Inr M"
    unfolding aead_contract_def by blast
  have "encrypt_merged P M K hk e = Inr (nonce @ ct, e')"
    using ne enc unfolding encrypt_merged_def ne_def [symmetric] by simp
  moreover have "decrypt_merged P (nonce @ ct) K False = Inr M"
    using ln dec by (simp add: decrypt_merged_def)
  ultimately show ?thesis
    using ln lct enc
    by (auto simp: CHACHAPOLY_NONCE_LEN_def CHACHAPOLY_TAG_LEN_def)
qed

theorem encrypt_merged_roundtrip_witness:
  "aead_contract stub_prims \<and> hmac_contract stub_prims
   \<and> length (replicate 32 (7::byte)) = 32
   \<and> (\<exists>nonce ct e'.
         encrypt_merged stub_prims [1, 2, 3] (replicate 32 7) (Some [9]) (\<lambda>_. 0)
           = Inr (nonce @ ct, e')
       \<and> length nonce = 12
       \<and> aead_encrypt stub_prims [1, 2, 3] nonce (replicate 32 7) = Inr ct
       \<and> length ct = length [1, 2, 3 :: byte] + 16
       \<and> decrypt_merged stub_prims (nonce @ ct) (replicate 32 7) False = Inr [1, 2, 3])"
  using encrypt_merged_roundtrip [OF stub_aead_contract stub_hmac_contract,
      of "replicate 32 7" "[1, 2, 3]" "Some [9]" "\<lambda>_. 0"]
    stub_aead_contract stub_hmac_contract
  by simp

section \<open>Per-record value keys\<close>

text \<open>
  \<^verbatim>\<open>n.to_bytes(4, "big")\<close>: the four bytes of \<open>n\<close>, most significant first;
  Python raises \<^verbatim>\<open>OverflowError\<close> when \<open>n\<close> does not fit.
\<close>

definition to_bytes4_big :: "nat \<Rightarrow> error + bytes" where
  "to_bytes4_big n =
     (if n < 2 ^ 32
      then Inr [of_nat (n div 2 ^ 24), of_nat (n div 2 ^ 16), of_nat (n div 2 ^ 8), of_nat n]
      else Inl OverflowError)"

text \<open>
  The incremental \<^verbatim>\<open>hmac.HMAC\<close> object: \<^verbatim>\<open>update\<close> appends to the message,
  \<^verbatim>\<open>digest\<close> is the HMAC of everything appended so far.
\<close>

record hasher =
  hasher_key :: bytes
  hasher_msg :: bytes

definition hmac_new :: "bytes \<Rightarrow> hasher" where
  "hmac_new key = \<lparr> hasher_key = key, hasher_msg = [] \<rparr>"

definition hasher_update :: "hasher \<Rightarrow> bytes \<Rightarrow> hasher" where
  "hasher_update h d = h \<lparr> hasher_msg := hasher_msg h @ d \<rparr>"

definition hasher_digest :: "prims \<Rightarrow> hasher \<Rightarrow> bytes" where
  "hasher_digest P h = hmac_sha256 P (hasher_key h) (hasher_msg h)"

text \<open>
  \<^verbatim>\<open>Strategy.encrypt_value(category, name, value, hmac_key)\<close>. \<^verbatim>\<open>update_item\<close> can
  pass \<^verbatim>\<open>None\<close> as the value (a row whose value column is empty); then
  \<^verbatim>\<open>encrypt_merged\<close> draws its nonce and the AEAD binding raises \<^verbatim>\<open>TypeError\<close>
  on the message.
\<close>

definition encrypt_value ::
  "prims \<Rightarrow> bytes \<Rightarrow> bytes \<Rightarrow> bytes option \<Rightarrow> bytes \<Rightarrow> entropy \<Rightarrow> error + (bytes \<times> entropy)" where
  "encrypt_value P category name val hmac_key e =
     (let hasher = hmac_new hmac_key in
      case to_bytes4_big (length category) of
        Inl err \<Rightarrow> Inl err
      | Inr lc \<Rightarrow>
         (let hasher = hasher_update hasher lc;
              hasher = hasher_update hasher category in
          case to_bytes4_big (length name) of
            Inl err \<Rightarrow> Inl err
          | Inr ln \<Rightarrow>
             (let hasher = hasher_update hasher ln;
                  hasher = hasher_update hasher name;
                  value_key = hasher_digest P hasher in
              case val of
                None \<Rightarrow> Inl TypeError
              | Some v \<Rightarrow> encrypt_merged P v value_key None e)))"

text \<open>The value of a byte string read as a big-endian number.\<close>

definition big_endian_value :: "bytes \<Rightarrow> nat" where
  "big_endian_value bs = foldl (\<lambda>acc b. acc * 256 + unat b) 0 bs"

lemma big_endian_split:
  fixes n :: nat
  shows "16777216 * (n div 16777216) + 65536 * (n div 65536 mod 256) +
     n div 256 mod 256 * 256 + n mod 256 = n"
proof -
  define m1 where "m1 = n div 256"
  define m2 where "m2 = m1 div 256"
  define m3 where "m3 = m2 div 256"
  define r0 where "r0 = n mod 256"
  define r1 where "r1 = m1 mod 256"
  define r2 where "r2 = m2 mod 256"
  have e0: "n = m1 * 256 + r0" by (simp add: m1_def r0_def)
  have e1: "m1 = m2 * 256 + r1" by (simp add: m2_def r1_def)
  have e2: "m2 = m3 * 256 + r2" by (simp add: m3_def r2_def)
  have d2: "n div 65536 = m2" by (simp add: m2_def m1_def div_mult2_eq)
  have d3: "n div 16777216 = m3" by (simp add: m3_def m2_def m1_def div_mult2_eq)
  have "16777216 * m3 + 65536 * r2 + r1 * 256 + r0 = n"
    using e0 e1 e2 by simp
  then show ?thesis
    by (simp add: d2 d3 m1_def [symmetric] r1_def [symmetric] r2_def [symmetric]
        r0_def [symmetric])
qed

lemma to_bytes4_big_value:
  assumes "n < 2 ^ 32"
  shows "\<exists>bs. to_bytes4_big n = Inr bs \<and> length bs = 4 \<and> big_endian_value bs = n"
proof -
  have "n div 16777216 mod 256 = n div 16777216"
    using assms by (simp add: less_mult_imp_div_less)
  with assms show ?thesis
    by (simp add: to_bytes4_big_def big_endian_value_def unat_of_nat big_endian_split)
qed

text \<open>
  Claim C3. For a category and a name whose lengths fit in four bytes, the key under
  which \<open>encrypt_value\<close> encrypts is the HMAC-SHA-256, keyed by the HMAC key, of the
  4-byte big-endian length of the category, the category, the 4-byte big-endian length
  of the name and the name. The key depends on nothing else: one key serves every value
  and every state of the random source. The value is encrypted under that key by
  \<open>encrypt_merged\<close> without an HMAC key, that is with the next 12 bytes of the random
  source as the nonce.
\<close>

theorem encrypt_value_derived_key:
  assumes "length category < 2 ^ 32" and "length name < 2 ^ 32"
  shows "\<exists>lc ln value_key.
           length lc = 4 \<and> big_endian_value lc = length category
         \<and> length ln = 4 \<and> big_endian_value ln = length name
         \<and> value_key = hmac_sha256 P hmac_key (lc @ category @ ln @ name)
         \<and> (\<forall>v e. encrypt_value P category name (Some v) hmac_key e
                    = encrypt_merged P v value_key None e
                \<and> encrypt_value P category name (Some v) hmac_key e
                    = (case aead_encrypt P v (map e [0..<12]) value_key of
                         Inl err \<Rightarrow> Inl err
                       | Inr ct \<Rightarrow> Inr (map e [0..<12] @ ct, \<lambda>i. e (i + 12))))"
proof -
  from assms(1) obtain lc where
    lc: "to_bytes4_big (length category) = Inr lc" "length lc = 4"
      "big_endian_value lc = length category"
    using to_bytes4_big_value by blast
  from assms(2) obtain ln where
    ln: "to_bytes4_big (length name) = Inr ln" "length ln = 4"
      "big_endian_value ln = length name"
    using to_bytes4_big_value by blast
  have "encrypt_value P category name (Some v) hmac_key e
          = encrypt_merged P v (hmac_sha256 P hmac_key (lc @ category @ ln @ name)) None e"
    for v e
    using lc(1) ln(1)
    by (simp add: encrypt_value_def hmac_new_def hasher_update_def hasher_digest_def)
  moreover have "encrypt_merged P v k None e
          = (case aead_encrypt P v (map e [0..<12]) k of
               Inl err \<Rightarrow> Inl err
             | Inr ct \<Rightarrow> Inr (map e [0..<12] @ ct, \<lambda>i. e (i + 12)))" for v k e
    by (simp add: encrypt_merged_def urandom_def CHACHAPOLY_NONCE_LEN_def)
  ultimately show ?thesis
    using lc(2,3) ln(2,3) by (intro exI conjI allI) (assumption | rule refl | simp)+
qed

theorem encrypt_value_derived_key_witness:
  "length [1, 2 :: byte] < 2 ^ 32 \<and> length [3 :: byte] < 2 ^ 32
   \<and> (\<exists>lc ln value_key.
           length lc = 4 \<and> big_endian_value lc = length [1, 2 :: byte]
         \<and> length ln = 4 \<and> big_endian_value ln = length [3 :: byte]
         \<and> value_key = hmac_sha256 stub_prims [5] (lc @ [1, 2] @ ln @ [3])
         \<and> encrypt_value stub_prims [1, 2] [3] (Some [8]) [5] (\<lambda>_. 0)
             = encrypt_merged stub_prims [8] value_key None (\<lambda>_. 0))"
proof -
  have h1: "length [1, 2 :: byte] < 2 ^ 32" and h2: "length [3 :: byte] < 2 ^ 32"
    by simp_all
  from encrypt_value_derived_key [OF h1 h2, of stub_prims "[5]"]
  obtain lc ln value_key where
    "length lc = 4" "big_endian_value lc = length [1, 2 :: byte]"
    "length ln = 4" "big_endian_value ln = length [3 :: byte]"
    "value_key = hmac_sha256 stub_prims [5] (lc @ [1, 2] @ ln @ [3])"
    "encrypt_value stub_prims [1, 2] [3] (Some [8]) [5] (\<lambda>_. 0)
       = encrypt_merged stub_prims [8] value_key None (\<lambda>_. 0)"
    by blast
  with h1 h2 show ?thesis by blast
qed

section \<open>Records, tags and items\<close>

text \<open>
  A row of the legacy store as \<^verbatim>\<open>fetch_pending_items\<close> returns it: the tuple
  \<^verbatim>\<open>(row_id, row_type, row_name, row_value, row_key, tags_enc, tags_plain)\<close>.
  The value and the two tag columns can be \<^verbatim>\<open>None\<close>.
\<close>

record row =
  row_id :: int
  row_type :: bytes
  row_name :: bytes
  row_value :: "bytes option"
  row_key :: bytes
  tags_enc :: "string option"
  tags_plain :: "string option"

text \<open>
  The dictionary built by \<^verbatim>\<open>fetch_indy_key\<close>, with its keys \<^verbatim>\<open>"type"\<close>,
  \<^verbatim>\<open>"name"\<close>, \<^verbatim>\<open>"value"\<close>, \<^verbatim>\<open>"item_hmac"\<close>, \<^verbatim>\<open>"tag_name"\<close>, \<^verbatim>\<open>"tag_value"\<close>,
  \<^verbatim>\<open>"tag_hmac"\<close>, \<^verbatim>\<open>"master"\<close> and \<^verbatim>\<open>"salt"\<close>.
\<close>

record indy_key =
  ik_type :: bytes
  ik_name :: bytes
  ik_value :: bytes
  ik_item_hmac :: bytes
  ik_tag_name :: bytes
  ik_tag_value :: bytes
  ik_tag_hmac :: bytes
  ik_master :: bytes
  ik_salt :: bytes

text \<open>The dictionary built by \<^verbatim>\<open>init_profile\<close>.\<close>

record profile_key =
  ver :: string
  ick :: bytes
  ink :: bytes
  ihk :: bytes
  tnk :: bytes
  tvk :: bytes
  thk :: bytes

text \<open>
  A decoded tag value is a byte string (a decrypted value) or a Python \<^verbatim>\<open>str\<close>
  (what \<^verbatim>\<open>tag[1]\<close> gives). A tag is the triple \<^verbatim>\<open>(plain, name, value)\<close> with
  \<^verbatim>\<open>plain\<close> the integer 0 or 1.
\<close>

datatype tagval = TVBytes bytes | TVStr string

type_synonym tag = "nat \<times> bytes \<times> tagval"

record item =
  item_id :: int
  item_type :: bytes
  item_name :: bytes
  item_value :: "bytes option"
  item_tags :: "tag list"

record upd_item =
  upd_id :: int
  upd_category :: bytes
  upd_name :: bytes
  upd_value :: bytes
  upd_tags :: "tag list"

subsection \<open>Splitting and hexadecimal decoding\<close>

text \<open>\<^verbatim>\<open>s.split(sep)\<close> for a separator of one character.\<close>

fun split_on :: "char \<Rightarrow> string \<Rightarrow> string list" where
  "split_on sep [] = [[]]"
| "split_on sep (c # cs) =
     (if c = sep then [] # split_on sep cs
      else case split_on sep cs of
             [] \<Rightarrow> [[c]]
           | w # ws \<Rightarrow> (c # w) # ws)"

definition hex_digit :: "char \<Rightarrow> nat option" where
  "hex_digit c =
     (let n = (of_char c :: nat) in
      if 48 \<le> n \<and> n \<le> 57 then Some (n - 48)
      else if 97 \<le> n \<and> n \<le> 102 then Some (n - 87)
      else if 65 \<le> n \<and> n \<le> 70 then Some (n - 55)
      else None)"

definition py_isspace :: "char \<Rightarrow> bool" where
  "py_isspace c \<longleftrightarrow> (of_char c :: nat) \<in> {9, 10, 11, 12, 13, 32}"

text \<open>
  \<^verbatim>\<open>bytes.fromhex\<close>: ASCII whitespace is skipped before each byte, a byte is two
  hexadecimal digits, anything else raises \<^verbatim>\<open>ValueError\<close>.
\<close>

fun fromhex :: "string \<Rightarrow> error + bytes" where
  "fromhex [] = Inr []"
| "fromhex [c] = (if py_isspace c then Inr [] else Inl ValueError)"
| "fromhex (c # d # ds) =
     (if py_isspace c then fromhex (d # ds)
      else case hex_digit c of
             None \<Rightarrow> Inl ValueError
           | Some hi \<Rightarrow>
              (case hex_digit d of
                 None \<Rightarrow> Inl ValueError
               | Some lo \<Rightarrow>
                  (case fromhex ds of
                     Inl err \<Rightarrow> Inl err
                   | Inr bs \<Rightarrow> Inr (of_nat (hi * 16 + lo) # bs))))"

subsection \<open>Decoding tags\<close>

text \<open>
  One round of the loop of \<^verbatim>\<open>Strategy.decrypt_tags\<close>. The unpacking
  \<^verbatim>\<open>tag_name, tag_value = map(bytes.fromhex, tag.split(":"))\<close> raises
  \<^verbatim>\<open>ValueError\<close> unless the split has exactly two parts and both decode. The test
  \<^verbatim>\<open>if value_key\<close> is truthiness again (\<open>truthy\<close> gives the key when it is neither
  \<^verbatim>\<open>None\<close> nor empty); \<^verbatim>\<open>tag[1]\<close> is the character at index 1 of the tag
  string and raises \<^verbatim>\<open>IndexError\<close> on a shorter string.
\<close>

definition truthy :: "bytes option \<Rightarrow> bytes option" where
  "truthy k = (case k of None \<Rightarrow> None | Some b \<Rightarrow> if b = [] then None else Some b)"

definition decrypt_tag ::
  "prims \<Rightarrow> string \<Rightarrow> bytes \<Rightarrow> bytes option \<Rightarrow> error + (bytes \<times> tagval)" where
  "decrypt_tag P tag name_key value_key =
     (case split_on CHR '':'' tag of
        [hex_name, hex_value] \<Rightarrow>
          (case fromhex hex_name of
             Inl err \<Rightarrow> Inl err
           | Inr tag_name \<Rightarrow>
          (case fromhex hex_value of
             Inl err \<Rightarrow> Inl err
           | Inr tag_value \<Rightarrow>
          (case decrypt_merged P tag_name name_key False of
             Inl err \<Rightarrow> Inl err
           | Inr name \<Rightarrow>
              (case truthy value_key of
                 Some vk \<Rightarrow>
                   (case decrypt_merged P tag_value vk False of
                      Inl err \<Rightarrow> Inl err
                    | Inr v \<Rightarrow> Inr (name, TVBytes v))
               | None \<Rightarrow>
                   if 1 < length tag then Inr (name, TVStr [tag ! 1])
                   else Inl IndexError))))
      | _ \<Rightarrow> Inl ValueError)"

text \<open>
  The generator \<^verbatim>\<open>decrypt_tags\<close> is always consumed to its end by
  \<^verbatim>\<open>decrypt_item\<close>: the result is the list of what it yields, or the first exception.
\<close>

fun decrypt_tag_list ::
  "prims \<Rightarrow> string list \<Rightarrow> bytes \<Rightarrow> bytes option \<Rightarrow> error + (bytes \<times> tagval) list" where
  "decrypt_tag_list P [] name_key value_key = Inr []"
| "decrypt_tag_list P (tag # rest) name_key value_key =
     (case decrypt_tag P tag name_key value_key of
        Inl err \<Rightarrow> Inl err
      | Inr nv \<Rightarrow>
         (case decrypt_tag_list P rest name_key value_key of
            Inl err \<Rightarrow> Inl err
          | Inr nvs \<Rightarrow> Inr (nv # nvs)))"

definition decrypt_tags ::
  "prims \<Rightarrow> string \<Rightarrow> bytes \<Rightarrow> bytes option \<Rightarrow> error + (bytes \<times> tagval) list" where
  "decrypt_tags P tags name_key value_key =
     decrypt_tag_list P (split_on CHR '','' tags) name_key value_key"

subsection \<open>Decrypting and re-encrypting an item\<close>

text \<open>
  \<^verbatim>\<open>Strategy.decrypt_item(row, keys, b64)\<close>, in the order in which Python evaluates
  it: the value key, the value, the encrypted tags, the plaintext tags, then the type
  and the name inside the dictionary display.
\<close>

definition decrypt_item :: "prims \<Rightarrow> row \<Rightarrow> indy_key \<Rightarrow> bool \<Rightarrow> error + item" where
  "decrypt_item P r keys b64 =
     (case decrypt_merged P (row_key r) (ik_value keys) False of
        Inl err \<Rightarrow> Inl err
      | Inr value_key \<Rightarrow>
     (case (case row_value r of
              None \<Rightarrow> Inr None
            | Some rv \<Rightarrow>
                if rv = [] then Inr None
                else map_sum id Some (decrypt_merged P rv value_key False)) of
        Inl err \<Rightarrow> Inl err
      | Inr val \<Rightarrow>
     (case (case tags_enc r of
              None \<Rightarrow> Inr []
            | Some te \<Rightarrow>
                if te = [] then Inr []
                else decrypt_tags P te (ik_tag_name keys) (Some (ik_tag_value keys))) of
        Inl err \<Rightarrow> Inl err
      | Inr enc \<Rightarrow>
     (case (case tags_plain r of
              None \<Rightarrow> Inr []
            | Some tp \<Rightarrow>
                if tp = [] then Inr []
                else decrypt_tags P tp (ik_tag_name keys) None) of
        Inl err \<Rightarrow> Inl err
      | Inr plain \<Rightarrow>
     (case decrypt_merged P (row_type r) (ik_type keys) b64 of
        Inl err \<Rightarrow> Inl err
      | Inr ty \<Rightarrow>
     (case decrypt_merged P (row_name r) (ik_name keys) b64 of
        Inl err \<Rightarrow> Inl err
      | Inr nm \<Rightarrow>
          Inr \<lparr> item_id = row_id r, item_type = ty, item_name = nm, item_value = val,
                item_tags = map (\<lambda>(k, v). (0, k, v)) enc
                          @ map (\<lambda>(k, v). (1, k, v)) plain \<rparr>))))))"

text \<open>
  The loop over the tags in \<^verbatim>\<open>Strategy.update_item\<close>. \<^verbatim>\<open>if not plain\<close> holds for
  the flag 0. A \<^verbatim>\<open>str\<close> value under flag 0 makes \<^verbatim>\<open>encrypt_merged\<close> raise
  \<^verbatim>\<open>TypeError\<close> (neither \<^verbatim>\<open>hmac\<close> nor the AEAD binding takes a \<^verbatim>\<open>str\<close>).
\<close>

fun update_tags ::
  "prims \<Rightarrow> tag list \<Rightarrow> profile_key \<Rightarrow> entropy \<Rightarrow> error + (tag list \<times> entropy)" where
  "update_tags P [] key e = Inr ([], e)"
| "update_tags P ((plain, k, v) # rest) key e =
     (case (if plain = 0
            then (case v of
                    TVStr s \<Rightarrow> Inl TypeError
                  | TVBytes vb \<Rightarrow>
                     (case encrypt_merged P vb (tvk key) (Some (thk key)) e of
                        Inl err \<Rightarrow> Inl err
                      | Inr (c, e1) \<Rightarrow> Inr (TVBytes c, e1)))
            else Inr (v, e)) of
        Inl err \<Rightarrow> Inl err
      | Inr (v', e1) \<Rightarrow>
     (case encrypt_merged P k (tnk key) (Some (thk key)) e1 of
        Inl err \<Rightarrow> Inl err
      | Inr (k', e2) \<Rightarrow>
     (case update_tags P rest key e2 of
        Inl err \<Rightarrow> Inl err
      | Inr (tags, e3) \<Rightarrow> Inr ((plain, k', v') # tags, e3))))"

text \<open>\<^verbatim>\<open>Strategy.update_item(item, key)\<close>.\<close>

definition update_item ::
  "prims \<Rightarrow> item \<Rightarrow> profile_key \<Rightarrow> entropy \<Rightarrow> error + (upd_item \<times> entropy)" where
  "update_item P it key e =
     (case update_tags P (item_tags it) key e of
        Inl err \<Rightarrow> Inl err
      | Inr (tags, e1) \<Rightarrow>
     (case encrypt_merged P (item_type it) (ick key) (Some (ihk key)) e1 of
        Inl err \<Rightarrow> Inl err
      | Inr (category, e2) \<Rightarrow>
     (case encrypt_merged P (item_name it) (ink key) (Some (ihk key)) e2 of
        Inl err \<Rightarrow> Inl err
      | Inr (name, e3) \<Rightarrow>
     (case encrypt_value P (item_type it) (item_name it) (item_value it) (ihk key) e3 of
        Inl err \<Rightarrow> Inl err
      | Inr (val, e4) \<Rightarrow>
          Inr (\<lparr> upd_id = item_id it, upd_category = category, upd_name = name,
                 upd_value = val, upd_tags = tags \<rparr>, e4)))))"

section \<open>Deterministic nonces\<close>

text \<open>
  The deterministic encryption in the words of the specification: the nonce is the
  HMAC-SHA-256 of the plaintext under the HMAC key, truncated to 12 bytes, and the
  output is that nonce followed by the AEAD output. No randomness enters.
\<close>

definition deterministic_merged :: "prims \<Rightarrow> bytes \<Rightarrow> bytes \<Rightarrow> bytes \<Rightarrow> error + bytes" where
  "deterministic_merged P M K H =
     (let nonce = take 12 (hmac_sha256 P H M) in
      case aead_encrypt P M nonce K of
        Inl err \<Rightarrow> Inl err
      | Inr ct \<Rightarrow> Inr (nonce @ ct))"

text \<open>
  How \<^verbatim>\<open>update_item\<close> relates a tag of the decrypted item to the tag it writes: the
  flag is kept, the name is encrypted deterministically under the tag-name key, and the
  value is encrypted deterministically under the tag-value key for flag 0 and kept as it
  is otherwise.
\<close>

fun tag_reencrypted :: "prims \<Rightarrow> profile_key \<Rightarrow> tag \<Rightarrow> tag \<Rightarrow> bool" where
  "tag_reencrypted P key (plain, k, v) (plain', k', v') =
       (plain' = plain
      \<and> deterministic_merged P k (tnk key) (thk key) = Inr k'
      \<and> (if plain = 0
         then (\<exists>vb vc. v = TVBytes vb \<and> v' = TVBytes vc
                \<and> deterministic_merged P vb (tvk key) (thk key) = Inr vc)
         else v' = v))"

lemma encrypt_merged_hmac_path:
  assumes "H \<noteq> []"
  shows "encrypt_merged P M K (Some H) e =
           (case deterministic_merged P M K H of Inl err \<Rightarrow> Inl err | Inr b \<Rightarrow> Inr (b, e))"
  using assms
  by (simp add: encrypt_merged_def deterministic_merged_def CHACHAPOLY_NONCE_LEN_def
      split: sum.splits)

lemma encrypt_merged_random_path:
  assumes "truthy hk = None"
  shows "encrypt_merged P M K hk e =
           (case aead_encrypt P M (map e [0..<12]) K of
              Inl err \<Rightarrow> Inl err
            | Inr ct \<Rightarrow> Inr (map e [0..<12] @ ct, \<lambda>i. e (i + 12)))"
  using assms
  by (auto simp: encrypt_merged_def truthy_def urandom_def CHACHAPOLY_NONCE_LEN_def
      split: option.splits if_splits)

lemma update_tags_deterministic:
  assumes "thk key \<noteq> []"
  shows "update_tags P ts key e = Inr (ts', e') \<Longrightarrow> list_all2 (tag_reencrypted P key) ts ts'"
proof (induction ts arbitrary: e ts' e')
  case Nil
  then show ?case by simp
next
  case (Cons t ts)
  obtain plain k v where t: "t = (plain, k, v)" by (cases t)
  from Cons.prems t assms obtain v' k' rest e2 where
    ts': "ts' = (plain, k', v') # rest" and
    rest: "update_tags P ts key e2 = Inr (rest, e')" and
    k': "deterministic_merged P k (tnk key) (thk key) = Inr k'" and
    v': "if plain = 0
         then \<exists>vb vc. v = TVBytes vb \<and> v' = TVBytes vc
                \<and> deterministic_merged P vb (tvk key) (thk key) = Inr vc
         else v' = v"
    by (auto simp: encrypt_merged_hmac_path split: sum.splits if_splits tagval.splits)
  from rest have "list_all2 (tag_reencrypted P key) ts rest" by (rule Cons.IH)
  with ts' k' v' t show ?case by simp
qed

text \<open>
  Claim C2, amended. For every message \<open>M\<close>, key \<open>K\<close> and \<^emph>\<open>non-empty\<close> HMAC key
  \<open>H\<close>, the result of \<open>encrypt_merged\<close> is the deterministic encryption: it does not
  depend on the random source, and its nonce is the truncated HMAC of the plaintext.
  When no HMAC key is supplied, or the key is the empty byte string, the nonce is the
  next 12 bytes of the random source. \<open>update_item\<close> encrypts the category and the
  name with the item HMAC key, and every tag name and every value of a tag with flag 0
  with the tag HMAC key: when those keys are non-empty, what it writes is the
  deterministic encryption of the decrypted fields.
\<close>

theorem encrypt_merged_deterministic:
  "(H \<noteq> [] \<longrightarrow>
      map_sum id fst (encrypt_merged P M K (Some H) e) = deterministic_merged P M K H)
   \<and> (truthy hk = None \<longrightarrow>
        encrypt_merged P M K hk e =
           (case aead_encrypt P M (map e [0..<12]) K of
              Inl err \<Rightarrow> Inl err
            | Inr ct \<Rightarrow> Inr (map e [0..<12] @ ct, \<lambda>i. e (i + 12))))
   \<and> (ihk key \<noteq> [] \<and> thk key \<noteq> [] \<and> update_item P it key e = Inr (u, e') \<longrightarrow>
        deterministic_merged P (item_type it) (ick key) (ihk key) = Inr (upd_category u)
      \<and> deterministic_merged P (item_name it) (ink key) (ihk key) = Inr (upd_name u)
      \<and> list_all2 (tag_reencrypted P key) (item_tags it) (upd_tags u))"
proof (intro conjI impI)
  assume "H \<noteq> []"
  then show "map_sum id fst (encrypt_merged P M K (Some H) e) = deterministic_merged P M K H"
    by (simp add: encrypt_merged_hmac_path split: sum.splits)
next
  assume "truthy hk = None"
  then show "encrypt_merged P M K hk e =
           (case aead_encrypt P M (map e [0..<12]) K of
              Inl err \<Rightarrow> Inl err
            | Inr ct \<Rightarrow> Inr (map e [0..<12] @ ct, \<lambda>i. e (i + 12)))"
    by (rule encrypt_merged_random_path)
next
  assume a: "ihk key \<noteq> [] \<and> thk key \<noteq> [] \<and> update_item P it key e = Inr (u, e')"
  then show "deterministic_merged P (item_type it) (ick key) (ihk key) = Inr (upd_category u)"
    by (auto simp: update_item_def encrypt_merged_hmac_path split: sum.splits)
  from a show "deterministic_merged P (item_name it) (ink key) (ihk key) = Inr (upd_name u)"
    by (auto simp: update_item_def encrypt_merged_hmac_path split: sum.splits)
  from a obtain e1 where "update_tags P (item_tags it) key e = Inr (upd_tags u, e1)"
    by (auto simp: update_item_def split: sum.splits)
  with a show "list_all2 (tag_reencrypted P key) (item_tags it) (upd_tags u)"
    using update_tags_deterministic by blast
qed

theorem encrypt_merged_deterministic_witness:
  "[5 :: byte] \<noteq> []
   \<and> map_sum id fst (encrypt_merged stub_prims [1] (replicate 32 0) (Some [5]) (\<lambda>_. 0))
       = deterministic_merged stub_prims [1] (replicate 32 0) [5]
   \<and> truthy (Some []) = None
   \<and> encrypt_merged stub_prims [1] (replicate 32 0) (Some []) (\<lambda>_. 7)
       = Inr (replicate 12 7 @ [1] @ replicate 16 0, \<lambda>_. 7)
   \<and> (\<exists>u e'.
         update_item stub_prims
           \<lparr> item_id = 1, item_type = [1], item_name = [2], item_value = Some [3],
             item_tags = [(0, [4], TVBytes [5]), (1, [6], TVStr ''a'')] \<rparr>
           \<lparr> ver = ''1'', ick = replicate 32 1, ink = replicate 32 2, ihk = replicate 32 3,
             tnk = replicate 32 4, tvk = replicate 32 5, thk = replicate 32 6 \<rparr>
           (\<lambda>_. 0) = Inr (u, e')
       \<and> deterministic_merged stub_prims [1] (replicate 32 1) (replicate 32 3)
           = Inr (upd_category u)
       \<and> deterministic_merged stub_prims [2] (replicate 32 2) (replicate 32 3)
           = Inr (upd_name u)
       \<and> list_all2
            (tag_reencrypted stub_prims
               \<lparr> ver = ''1'', ick = replicate 32 1, ink = replicate 32 2,
                 ihk = replicate 32 3, tnk = replicate 32 4, tvk = replicate 32 5,
                 thk = replicate 32 6 \<rparr>)
            [(0, [4], TVBytes [5]), (1, [6], TVStr ''a'')] (upd_tags u))"
proof -
  define it where "it = \<lparr> item_id = 1, item_type = [1 :: byte], item_name = [2 :: byte],
    item_value = Some [3 :: byte],
    item_tags = [(0, [4], TVBytes [5]), (1, [6], TVStr ''a'')] \<rparr>"
  define key where "key = \<lparr> ver = ''1'', ick = replicate 32 (1 :: byte),
    ink = replicate 32 (2 :: byte), ihk = replicate 32 (3 :: byte),
    tnk = replicate 32 (4 :: byte), tvk = replicate 32 (5 :: byte),
    thk = replicate 32 (6 :: byte) \<rparr>"
  have keys: "ihk key \<noteq> []" "thk key \<noteq> []"
    by (simp_all add: key_def)
  have "\<exists>u e'. update_item stub_prims it key (\<lambda>_. 0) = Inr (u, e')"
    by (simp add: update_item_def it_def key_def encrypt_merged_def encrypt_value_def
        to_bytes4_big_def hmac_new_def hasher_update_def hasher_digest_def
        stub_hmac_def stub_encrypt_def urandom_def CHACHAPOLY_NONCE_LEN_def)
  then obtain u e' where u: "update_item stub_prims it key (\<lambda>_. 0) = Inr (u, e')"
    by blast
  have rnd: "map (\<lambda>_. 7 :: byte) [0..<12] = replicate 12 7"
    by (simp add: map_replicate_const)
  from encrypt_merged_deterministic [where H = "[5]" and P = stub_prims and M = "[1]"
      and K = "replicate 32 0" and e = "\<lambda>_. 0" and hk = "Some []" and key = key
      and it = it and u = u and e' = e'] keys u
  have "map_sum id fst (encrypt_merged stub_prims [1] (replicate 32 0) (Some [5]) (\<lambda>_. 0))
          = deterministic_merged stub_prims [1] (replicate 32 0) [5]"
    and "deterministic_merged stub_prims (item_type it) (ick key) (ihk key)
          = Inr (upd_category u)"
    and "deterministic_merged stub_prims (item_name it) (ink key) (ihk key)
          = Inr (upd_name u)"
    and "list_all2 (tag_reencrypted stub_prims key) (item_tags it) (upd_tags u)"
    by simp_all
  moreover have "encrypt_merged stub_prims [1] (replicate 32 0) (Some []) (\<lambda>_. 7)
       = Inr (replicate 12 7 @ [1] @ replicate 16 0, \<lambda>_. 7)"
    by (simp add: encrypt_merged_def urandom_def stub_encrypt_def CHACHAPOLY_NONCE_LEN_def
        rnd del: upt_rec_numeral)
  ultimately show ?thesis
    using u by (auto simp: it_def key_def truthy_def)
qed

text \<open>
  The claim as stated fails for the empty HMAC key: two calls with the same message, key
  and HMAC key \<^verbatim>\<open>b""\<close> return different blobs when the random source differs.
\<close>

theorem encrypt_merged_empty_hmac_key_counterexample:
  "map_sum id fst (encrypt_merged stub_prims [1] (replicate 32 0) (Some []) (\<lambda>_. 0))
     \<noteq> map_sum id fst (encrypt_merged stub_prims [1] (replicate 32 0) (Some []) (\<lambda>_. 1))"
  by (auto simp: encrypt_merged_def urandom_def stub_encrypt_def CHACHAPOLY_NONCE_LEN_def
      intro: exI [of _ 0])

section \<open>Plaintext tags\<close>

lemma split_on_nonempty: "split_on c s \<noteq> []"
  by (induction s) (auto split: list.splits)

lemma split_on_single: "split_on c s = [a] \<Longrightarrow> s = a"
  by (induction s arbitrary: a) (auto split: list.splits if_splits simp: split_on_nonempty)

lemma split_on_pair: "split_on c s = [a, b] \<Longrightarrow> s = a @ c # b"
  by (induction s arbitrary: a) (auto split: list.splits if_splits dest: split_on_single)

lemma fromhex_second_digit:
  assumes "fromhex h = Inr bs" and "h \<noteq> []" and "\<not> py_isspace (h ! 0)"
  shows "2 \<le> length h \<and> hex_digit (h ! 1) \<noteq> None"
proof (cases h)
  case Nil
  with assms show ?thesis by simp
next
  case (Cons c cs)
  with assms show ?thesis
    by (cases cs) (auto split: option.splits)
qed

text \<open>
  What \<open>decrypt_tags\<close> without a value key yields for one tag string: the value is the
  one-character string at index 1 of the tag string; the tag string is a hexadecimal
  name, a colon and a hexadecimal value; both decode, and the yielded name is the
  decryption of the decoded name. The decoded value is not used. When the hexadecimal
  name does not begin with whitespace, index 1 is its second hexadecimal digit.
\<close>

fun plain_tag_decoded :: "prims \<Rightarrow> bytes \<Rightarrow> string \<Rightarrow> bytes \<times> tagval \<Rightarrow> bool" where
  "plain_tag_decoded P name_key tag (name, v) =
     (v = TVStr [tag ! 1] \<and> 1 < length tag
      \<and> (\<exists>hex_name hex_value tag_name tag_value.
            tag = hex_name @ CHR '':'' # hex_value
          \<and> fromhex hex_name = Inr tag_name
          \<and> fromhex hex_value = Inr tag_value
          \<and> decrypt_merged P tag_name name_key False = Inr name
          \<and> (hex_name \<noteq> [] \<and> \<not> py_isspace (hex_name ! 0) \<longrightarrow>
                tag ! 1 = hex_name ! 1 \<and> hex_digit (tag ! 1) \<noteq> None)))"

lemma decrypt_tag_plain:
  assumes "decrypt_tag P tag name_key None = Inr nv"
  shows "plain_tag_decoded P name_key tag nv"
proof -
  obtain name v where nv: "nv = (name, v)" by (cases nv)
  from assms nv obtain hn hv bn bv where
    sp: "split_on CHR '':'' tag = [hn, hv]" and
    hn: "fromhex hn = Inr bn" and hv: "fromhex hv = Inr bv" and
    nm: "decrypt_merged P bn name_key False = Inr name" and
    v: "v = TVStr [tag ! 1]" and len: "1 < length tag"
    by (auto simp: decrypt_tag_def truthy_def split: list.splits sum.splits if_splits)
  from sp have tag: "tag = hn @ CHR '':'' # hv" by (rule split_on_pair)
  have "tag ! 1 = hn ! 1 \<and> hex_digit (tag ! 1) \<noteq> None"
    if "hn \<noteq> []" "\<not> py_isspace (hn ! 0)"
  proof -
    from fromhex_second_digit [OF hn that] have "2 \<le> length hn" "hex_digit (hn ! 1) \<noteq> None"
      by simp_all
    then show ?thesis by (simp add: tag nth_append)
  qed
  with tag hn hv nm v len nv show ?thesis by auto
qed

lemma decrypt_tag_list_plain:
  "decrypt_tag_list P tags name_key None = Inr res \<Longrightarrow>
     list_all2 (plain_tag_decoded P name_key) tags res"
proof (induction tags arbitrary: res)
  case Nil
  then show ?case by simp
next
  case (Cons tag tags)
  from Cons.prems obtain nv rest where
    nv: "decrypt_tag P tag name_key None = Inr nv" and
    rest: "decrypt_tag_list P tags name_key None = Inr rest" and
    res: "res = nv # rest"
    by (auto split: sum.splits)
  from nv have "plain_tag_decoded P name_key tag nv" by (rule decrypt_tag_plain)
  moreover from rest have "list_all2 (plain_tag_decoded P name_key) tags rest"
    by (rule Cons.IH)
  ultimately show ?case using res by simp
qed

lemma plain_tag_values:
  "list_all2 (plain_tag_decoded P name_key) tags res \<Longrightarrow>
     map snd res = map (\<lambda>tag. TVStr [tag ! 1]) tags"
  by (induction rule: list_all2_induct) auto

lemma update_tags_plain_kept:
  "update_tags P ts key e = Inr (ts', e') \<Longrightarrow>
     map (\<lambda>t. snd (snd t)) (filter (\<lambda>t. fst t \<noteq> 0) ts')
       = map (\<lambda>t. snd (snd t)) (filter (\<lambda>t. fst t \<noteq> 0) ts)"
proof (induction ts arbitrary: e ts' e')
  case Nil
  then show ?case by simp
next
  case (Cons t ts)
  obtain plain k v where t: "t = (plain, k, v)" by (cases t)
  from Cons.prems t obtain k' v' rest e2 where
    ts': "ts' = (plain, k', v') # rest" and
    rest: "update_tags P ts key e2 = Inr (rest, e')" and
    v': "plain \<noteq> 0 \<longrightarrow> v' = v"
    by (auto split: sum.splits if_splits tagval.splits)
  from rest have "map (\<lambda>t. snd (snd t)) (filter (\<lambda>t. fst t \<noteq> 0) rest)
       = map (\<lambda>t. snd (snd t)) (filter (\<lambda>t. fst t \<noteq> 0) ts)"
    by (rule Cons.IH)
  with ts' v' t show ?case by simp
qed

lemma decrypt_item_plain_tags:
  assumes "decrypt_item P r keys b64 = Inr it" and "tags_plain r = Some tags" and "tags \<noteq> []"
  shows "\<exists>res. decrypt_tags P tags (ik_tag_name keys) None = Inr res
          \<and> filter (\<lambda>t. fst t \<noteq> 0) (item_tags it) = map (\<lambda>(k, v). (1, k, v)) res"
  using assms
  by (auto simp: decrypt_item_def filter_map o_def split_def split: sum.splits)

text \<open>
  Claim C10. Whenever \<open>decrypt_tags\<close> decodes a tag string with no value key, the
  value it yields for each tag is the single character at index 1 of that tag's
  \<^verbatim>\<open>hexName:hexValue\<close> substring, a \<^verbatim>\<open>str\<close> and not the decoded bytes of the value;
  the name is hex-decoded and decrypted. For a row with a non-empty plaintext-tag column,
  the values of the tags with a non-zero flag in what \<open>update_item\<close> writes are
  exactly these one-character strings, unencrypted.
\<close>

theorem plaintext_tag_value_is_second_character:
  "(decrypt_tags P tags name_key None = Inr res \<longrightarrow>
      list_all2 (plain_tag_decoded P name_key) (split_on CHR '','' tags) res
    \<and> map snd res = map (\<lambda>tag. TVStr [tag ! 1]) (split_on CHR '','' tags))
   \<and> (tags_plain r = Some tags \<and> tags \<noteq> []
        \<and> decrypt_item P r keys b64 = Inr it \<and> update_item P it key e = Inr (u, e') \<longrightarrow>
      map (\<lambda>t. snd (snd t)) (filter (\<lambda>t. fst t \<noteq> 0) (upd_tags u))
        = map (\<lambda>tag. TVStr [tag ! 1]) (split_on CHR '','' tags))"
proof (intro conjI impI)
  assume "decrypt_tags P tags name_key None = Inr res"
  then show d: "list_all2 (plain_tag_decoded P name_key) (split_on CHR '','' tags) res"
    unfolding decrypt_tags_def by (rule decrypt_tag_list_plain)
  then show "map snd res = map (\<lambda>tag. TVStr [tag ! 1]) (split_on CHR '','' tags)"
    by (rule plain_tag_values)
next
  assume a: "tags_plain r = Some tags \<and> tags \<noteq> []
        \<and> decrypt_item P r keys b64 = Inr it \<and> update_item P it key e = Inr (u, e')"
  then obtain res where
    res: "decrypt_tags P tags (ik_tag_name keys) None = Inr res" and
    pl: "filter (\<lambda>t. fst t \<noteq> 0) (item_tags it) = map (\<lambda>(k, v). (1, k, v)) res"
    using decrypt_item_plain_tags by blast
  from res have "list_all2 (plain_tag_decoded P (ik_tag_name keys)) (split_on CHR '','' tags) res"
    unfolding decrypt_tags_def by (rule decrypt_tag_list_plain)
  then have vals: "map snd res = map (\<lambda>tag. TVStr [tag ! 1]) (split_on CHR '','' tags)"
    by (rule plain_tag_values)
  from a obtain e1 where "update_tags P (item_tags it) key e = Inr (upd_tags u, e1)"
    by (auto simp: update_item_def split: sum.splits)
  then have "map (\<lambda>t. snd (snd t)) (filter (\<lambda>t. fst t \<noteq> 0) (upd_tags u))
       = map (\<lambda>t. snd (snd t)) (filter (\<lambda>t. fst t \<noteq> 0) (item_tags it))"
    by (rule update_tags_plain_kept)
  also have "\<dots> = map snd res"
    unfolding pl by (simp add: o_def split_def)
  finally show "map (\<lambda>t. snd (snd t)) (filter (\<lambda>t. fst t \<noteq> 0) (upd_tags u))
        = map (\<lambda>tag. TVStr [tag ! 1]) (split_on CHR '','' tags)"
    using vals by simp
qed


subsection \<open>A concrete row\<close>

text \<open>
  A row encrypted under all-zero keys for the small instance of the primitives, with
  one plaintext tag: the name ciphertext is \<^verbatim>\<open>0a\<close> followed by 27 zero bytes, the
  value is the byte \<^verbatim>\<open>0x31\<close>.
\<close>

definition example_plain_tags :: string where
  "example_plain_tags = ''0a000000000000000000000000000000000000000000000000000000:31''"

definition example_keys :: indy_key where
  "example_keys = \<lparr> ik_type = replicate 32 0, ik_name = replicate 32 0,
     ik_value = replicate 32 0, ik_item_hmac = replicate 32 0, ik_tag_name = replicate 32 0,
     ik_tag_value = replicate 32 0, ik_tag_hmac = replicate 32 0, ik_master = replicate 32 0,
     ik_salt = replicate 16 0 \<rparr>"

definition example_row :: row where
  "example_row = \<lparr> row_id = 1, row_type = replicate 28 0, row_name = replicate 28 0,
     row_value = Some (replicate 28 0), row_key = replicate 60 0, tags_enc = None,
     tags_plain = Some example_plain_tags \<rparr>"

definition example_profile_key :: profile_key where
  "example_profile_key = \<lparr> ver = ''1'', ick = replicate 32 0, ink = replicate 32 0,
     ihk = replicate 32 0, tnk = replicate 32 0, tvk = replicate 32 0, thk = replicate 32 0 \<rparr>"

lemma replicate_16: "replicate 16 x = [x, x, x, x, x, x, x, x, x, x, x, x, x, x, x, x]"
  by (simp add: eval_nat_numeral)

lemma example_plain_tags_nonempty: "example_plain_tags \<noteq> []"
  by (simp add: example_plain_tags_def)

lemma example_split_comma: "split_on CHR '','' example_plain_tags = [example_plain_tags]"
  by (simp add: example_plain_tags_def)

lemma example_decrypt_tags:
  "decrypt_tags stub_prims example_plain_tags (replicate 32 0) None = Inr [([], TVStr ''a'')]"
  unfolding decrypt_tags_def example_split_comma
  by (simp add: example_plain_tags_def decrypt_tag_def hex_digit_def py_isspace_def
      decrypt_merged_def stub_decrypt_def truthy_def CHACHAPOLY_NONCE_LEN_def replicate_16)

lemma example_decrypt_item:
  "decrypt_item stub_prims example_row example_keys False =
     Inr \<lparr> item_id = 1, item_type = [], item_name = [], item_value = Some [],
           item_tags = [(1, [], TVStr ''a'')] \<rparr>"
  by (simp add: decrypt_item_def example_row_def example_keys_def example_decrypt_tags
      example_plain_tags_nonempty decrypt_merged_def stub_decrypt_def CHACHAPOLY_NONCE_LEN_def)


lemma example_update_item:
  "\<exists>u e'. update_item stub_prims
      \<lparr> item_id = 1, item_type = [], item_name = [], item_value = Some [],
        item_tags = [(1, [], TVStr ''a'')] \<rparr> example_profile_key (\<lambda>_. 0) = Inr (u, e')"
  by (simp add: update_item_def example_profile_key_def encrypt_merged_def encrypt_value_def
      to_bytes4_big_def hmac_new_def hasher_update_def hasher_digest_def
      stub_hmac_def stub_encrypt_def urandom_def CHACHAPOLY_NONCE_LEN_def)

theorem plaintext_tag_value_is_second_character_witness:
  "decrypt_tags stub_prims example_plain_tags (replicate 32 0) None = Inr [([], TVStr ''a'')]
   \<and> list_all2 (plain_tag_decoded stub_prims (replicate 32 0))
        (split_on CHR '','' example_plain_tags) [([], TVStr ''a'')]
   \<and> tags_plain example_row = Some example_plain_tags \<and> example_plain_tags \<noteq> []
   \<and> (\<exists>it u e'.
         decrypt_item stub_prims example_row example_keys False = Inr it
       \<and> update_item stub_prims it example_profile_key (\<lambda>_. 0) = Inr (u, e')
       \<and> map (\<lambda>t. snd (snd t)) (filter (\<lambda>t. fst t \<noteq> 0) (upd_tags u)) = [TVStr ''a''])"
proof -
  define it where "it = \<lparr> item_id = 1, item_type = ([] :: bytes), item_name = ([] :: bytes),
    item_value = Some ([] :: bytes), item_tags = [(1, [], TVStr ''a'')] \<rparr>"
  have dt: "decrypt_tags stub_prims example_plain_tags (replicate 32 0) None
              = Inr [([], TVStr ''a'')]"
    by (rule example_decrypt_tags)
  have tp: "tags_plain example_row = Some example_plain_tags"
    by (simp add: example_row_def)
  have di: "decrypt_item stub_prims example_row example_keys False = Inr it"
    unfolding it_def by (rule example_decrypt_item)
  from example_update_item obtain u e' where
    ui: "update_item stub_prims it example_profile_key (\<lambda>_. 0) = Inr (u, e')"
    unfolding it_def by blast
  have second: "map (\<lambda>tag. TVStr [tag ! 1]) (split_on CHR '','' example_plain_tags)
                  = [TVStr ''a'']"
    by (simp add: example_split_comma) (simp add: example_plain_tags_def)
  from plaintext_tag_value_is_second_character [where P = stub_prims
      and tags = example_plain_tags and name_key = "replicate 32 0"
      and res = "[([], TVStr ''a'')]" and r = example_row and keys = example_keys
      and ?b64.0 = False and it = it and key = example_profile_key and e = "\<lambda>_. 0"
      and u = u and e' = e'] dt tp example_plain_tags_nonempty di ui
  have "list_all2 (plain_tag_decoded stub_prims (replicate 32 0))
          (split_on CHR '','' example_plain_tags) [([], TVStr ''a'')]"
    and "map (\<lambda>t. snd (snd t)) (filter (\<lambda>t. fst t \<noteq> 0) (upd_tags u))
          = map (\<lambda>tag. TVStr [tag ! 1]) (split_on CHR '','' example_plain_tags)"
    by blast+
  with dt tp example_plain_tags_nonempty di ui second show ?thesis
    by (intro conjI exI [of _ it] exI [of _ u] exI [of _ e']) simp_all
qed

section \<open>The re-key loop\<close>

text \<open>
  Modelled from the spec: the legacy-wallet collaborator (class \<^verbatim>\<open>Wallet\<close> of
  \<^verbatim>\<open>db_connection.py\<close>, which is not among the sources). The specification gives
  its contract: \<^verbatim>\<open>fetchPendingItems(limit)\<close> returns up to \<open>limit\<close> rows that are not
  yet migrated; \<^verbatim>\<open>updateItems(list)\<close> writes the batch back and marks its records
  migrated, so that later fetches exclude them; \<^verbatim>\<open>insertProfile(name, key)\<close> stores
  an encrypted profile key. A wallet is its pending rows, the batches written through
  \<^verbatim>\<open>update_items\<close> in order, and the profiles inserted; \<open>is_pg\<close> says whether it
  is a \<^verbatim>\<open>PgWallet\<close>. A record is identified by its row id.
\<close>

record wallet =
  is_pg :: bool
  pending :: "row list"
  written :: "upd_item list list"
  profiles :: "(string \<times> bytes) list"

definition fetch_pending_items :: "nat \<Rightarrow> wallet \<Rightarrow> row list" where
  "fetch_pending_items limit w = take limit (pending w)"

definition wallet_update_items :: "upd_item list \<Rightarrow> wallet \<Rightarrow> wallet" where
  "wallet_update_items upd w =
     w \<lparr> pending := filter (\<lambda>r. row_id r \<notin> set (map upd_id upd)) (pending w),
         written := written w @ [upd] \<rparr>"

definition insert_profile :: "string \<Rightarrow> bytes \<Rightarrow> wallet \<Rightarrow> wallet" where
  "insert_profile name enc_pk w = w \<lparr> profiles := profiles w @ [(name, enc_pk)] \<rparr>"

text \<open>
  The body of the \<^verbatim>\<open>for row in rows\<close> loop of \<^verbatim>\<open>Strategy.update_items\<close>, which
  collects the re-encrypted items in \<^verbatim>\<open>upd\<close>.
\<close>

fun update_rows ::
  "prims \<Rightarrow> indy_key \<Rightarrow> profile_key \<Rightarrow> bool \<Rightarrow> row list \<Rightarrow> entropy
     \<Rightarrow> error + (upd_item list \<times> entropy)" where
  "update_rows P indy_key profile_key b64 [] e = Inr ([], e)"
| "update_rows P indy_key profile_key b64 (r # rows) e =
     (case decrypt_item P r indy_key b64 of
        Inl err \<Rightarrow> Inl err
      | Inr result \<Rightarrow>
     (case update_item P result profile_key e of
        Inl err \<Rightarrow> Inl err
      | Inr (u, e1) \<Rightarrow>
     (case update_rows P indy_key profile_key b64 rows e1 of
        Inl err \<Rightarrow> Inl err
      | Inr (upd, e2) \<Rightarrow> Inr (u # upd, e2))))"

lemma decrypt_item_id: "decrypt_item P r keys b64 = Inr it \<Longrightarrow> item_id it = row_id r"
  by (auto simp: decrypt_item_def split: sum.splits)

lemma update_item_id: "update_item P it key e = Inr (u, e') \<Longrightarrow> upd_id u = item_id it"
  by (auto simp: update_item_def split: sum.splits)

lemma update_rows_ids:
  "update_rows P ik pk b64 rows e = Inr (upd, e') \<Longrightarrow> map upd_id upd = map row_id rows"
proof (induction rows arbitrary: e upd e')
  case Nil
  then show ?case by simp
next
  case (Cons r rows)
  from Cons.prems obtain it u e1 rest where
    "decrypt_item P r ik b64 = Inr it" "update_item P it pk e = Inr (u, e1)"
    "update_rows P ik pk b64 rows e1 = Inr (rest, e')" "upd = u # rest"
    by (auto split: sum.splits)
  then show ?case
    using Cons.IH decrypt_item_id update_item_id by fastforce
qed

lemma update_shrinks_pending:
  assumes "fetch_pending_items 1 w \<noteq> []"
    and "update_rows P ik pk b64 (fetch_pending_items 1 w) e = Inr (upd, e')"
  shows "length (pending (wallet_update_items upd w)) < length (pending w)"
proof -
  from assms(1) obtain r rest where p: "pending w = r # rest"
    by (cases "pending w") (auto simp: fetch_pending_items_def)
  with assms(2) have "update_rows P ik pk b64 [r] e = Inr (upd, e')"
    by (simp add: fetch_pending_items_def)
  then have "map upd_id upd = map row_id [r]"
    by (rule update_rows_ids)
  then have "map upd_id upd = [row_id r]" by simp
  then have "filter (\<lambda>x. row_id x \<notin> set (map upd_id upd)) (pending w)
               = filter (\<lambda>x. row_id x \<noteq> row_id r) rest"
    by (simp add: p)
  then have "length (pending (wallet_update_items upd w)) \<le> length rest"
    by (simp add: wallet_update_items_def)
  with p show ?thesis by simp
qed

text \<open>
  \<^verbatim>\<open>Strategy.update_items(wallet, indy_key, profile_key)\<close>: the \<^verbatim>\<open>while True\<close>
  loop. It returns the exception raised, if any, the wallet as the loop leaves it and
  the rest of the random source. It terminates on every wallet: each round trip removes
  the fetched row from the pending rows.
\<close>

function update_items ::
  "prims \<Rightarrow> indy_key \<Rightarrow> profile_key \<Rightarrow> wallet \<Rightarrow> entropy
     \<Rightarrow> error option \<times> wallet \<times> entropy" where
  "update_items P indy_key profile_key w e =
     (if fetch_pending_items 1 w = [] then (None, w, e)
      else case update_rows P indy_key profile_key (is_pg w) (fetch_pending_items 1 w) e of
             Inl err \<Rightarrow> (Some err, w, e)
           | Inr (upd, e') \<Rightarrow> update_items P indy_key profile_key (wallet_update_items upd w) e')"
  by pat_completeness auto
termination
  by (relation "measure (\<lambda>(P, ik, pk, w, e). length (pending w))")
    (auto intro: update_shrinks_pending)

declare update_items.simps [simp del]

text \<open>
  A run of the loop that is stopped after at most \<open>n\<close> round trips (the process is
  interrupted between two round trips); what remains is the wallet.
\<close>

fun update_items_upto ::
  "nat \<Rightarrow> prims \<Rightarrow> indy_key \<Rightarrow> profile_key \<Rightarrow> wallet \<Rightarrow> entropy
     \<Rightarrow> error option \<times> wallet \<times> entropy" where
  "update_items_upto 0 P indy_key profile_key w e = (None, w, e)"
| "update_items_upto (Suc n) P indy_key profile_key w e =
     (if fetch_pending_items 1 w = [] then (None, w, e)
      else case update_rows P indy_key profile_key (is_pg w) (fetch_pending_items 1 w) e of
             Inl err \<Rightarrow> (Some err, w, e)
           | Inr (upd, e') \<Rightarrow>
               update_items_upto n P indy_key profile_key (wallet_update_items upd w) e')"

lemma update_items_resume:
  "update_items_upto n P ik pk w e = (None, w1, e1) \<Longrightarrow>
     update_items P ik pk w1 e1 = update_items P ik pk w e"
proof (induction n arbitrary: w e)
  case 0
  then show ?case by simp
next
  case (Suc n)
  show ?case
  proof (cases "fetch_pending_items 1 w = []")
    case True
    with Suc.prems show ?thesis by simp
  next
    case False
    with Suc.prems obtain upd e' where
      rows: "update_rows P ik pk (is_pg w) (fetch_pending_items 1 w) e = Inr (upd, e')" and
      rest: "update_items_upto n P ik pk (wallet_update_items upd w) e' = (None, w1, e1)"
      by (auto split: sum.splits)
    from rest have "update_items P ik pk w1 e1
                      = update_items P ik pk (wallet_update_items upd w) e'"
      by (rule Suc.IH)
    also have "\<dots> = update_items P ik pk w e"
      using False rows by (simp add: update_items.simps [of P ik pk w e])
    finally show ?thesis .
  qed
qed

lemma update_items_done:
  "update_items P ik pk w e = (None, w', e') \<Longrightarrow> fetch_pending_items 1 w' = []"
proof (induction P ik pk w e rule: update_items.induct)
  case (1 P ik pk w e)
  show ?case
  proof (cases "fetch_pending_items 1 w = []")
    case True
    with "1.prems" show ?thesis by (simp add: update_items.simps [of P ik pk w e])
  next
    case False
    with "1.prems" obtain upd e1 where
      rows: "update_rows P ik pk (is_pg w) (fetch_pending_items 1 w) e = Inr (upd, e1)" and
      rest: "update_items P ik pk (wallet_update_items upd w) e1 = (None, w', e')"
      by (auto simp: update_items.simps [of P ik pk w e] split: sum.splits)
    from "1.IH" [OF False rows refl rest] show ?thesis .
  qed
qed


text \<open>
  \<open>u\<close> is a re-encryption of the row \<open>r\<close>: \<open>update_item\<close> returns it for the
  decrypted row and some state of the random source. A wallet \<open>w'\<close> holds the
  migrated content of \<open>w\<close> when nothing is pending and the batches written since
  \<open>w\<close> are, in order, one re-encryption of each row that was pending in \<open>w\<close>.
\<close>

definition reencryption_of ::
  "prims \<Rightarrow> indy_key \<Rightarrow> profile_key \<Rightarrow> bool \<Rightarrow> row \<Rightarrow> upd_item \<Rightarrow> bool" where
  "reencryption_of P ik pk b64 r u \<longleftrightarrow>
     (\<exists>it e e'. decrypt_item P r ik b64 = Inr it \<and> update_item P it pk e = Inr (u, e'))"

definition fully_migrated ::
  "prims \<Rightarrow> indy_key \<Rightarrow> profile_key \<Rightarrow> wallet \<Rightarrow> wallet \<Rightarrow> bool" where
  "fully_migrated P ik pk w w' \<longleftrightarrow>
     pending w' = [] \<and> is_pg w' = is_pg w \<and> profiles w' = profiles w
     \<and> (\<exists>us. written w' = written w @ map (\<lambda>u. [u]) us
            \<and> list_all2 (reencryption_of P ik pk (is_pg w)) (pending w) us)"

text \<open>
  \<^verbatim>\<open>update_item\<close> only encrypts; reading a migrated record is left to the target
  store. To say what a written record holds, \<open>read_back\<close> opens it with the profile key
  by the \<open>decrypt_merged\<close> of the source: every tag name under the tag-name key, the
  value of a tag with flag 0 under the tag-value key, the category and the name under
  their keys, and the value under the key that \<open>encrypt_value\<close> derives from the
  category and the name. \<open>derived_value_key\<close> is that key: the HMAC, under the item
  HMAC key, of the two strings, each after its 4-byte big-endian length.
\<close>

definition derived_value_key :: "prims \<Rightarrow> bytes \<Rightarrow> bytes \<Rightarrow> bytes \<Rightarrow> error + bytes" where
  "derived_value_key P hmac_key category name =
     (case to_bytes4_big (length category) of
        Inl err \<Rightarrow> Inl err
      | Inr lc \<Rightarrow>
         (case to_bytes4_big (length name) of
            Inl err \<Rightarrow> Inl err
          | Inr ln \<Rightarrow> Inr (hmac_sha256 P hmac_key (lc @ category @ ln @ name))))"

fun read_back_tag :: "prims \<Rightarrow> profile_key \<Rightarrow> tag \<Rightarrow> error + tag" where
  "read_back_tag P key (plain, k, v) =
     (case decrypt_merged P k (tnk key) False of
        Inl err \<Rightarrow> Inl err
      | Inr name \<Rightarrow>
          if plain = 0
          then (case v of
                  TVStr s \<Rightarrow> Inl TypeError
                | TVBytes vb \<Rightarrow>
                   (case decrypt_merged P vb (tvk key) False of
                      Inl err \<Rightarrow> Inl err
                    | Inr val \<Rightarrow> Inr (plain, name, TVBytes val)))
          else Inr (plain, name, v))"

fun read_back_tags :: "prims \<Rightarrow> profile_key \<Rightarrow> tag list \<Rightarrow> error + tag list" where
  "read_back_tags P key [] = Inr []"
| "read_back_tags P key (t # ts) =
     (case read_back_tag P key t of
        Inl err \<Rightarrow> Inl err
      | Inr t' \<Rightarrow>
         (case read_back_tags P key ts of
            Inl err \<Rightarrow> Inl err
          | Inr ts' \<Rightarrow> Inr (t' # ts')))"

definition read_back :: "prims \<Rightarrow> profile_key \<Rightarrow> upd_item \<Rightarrow> error + item" where
  "read_back P key u =
     (case read_back_tags P key (upd_tags u) of
        Inl err \<Rightarrow> Inl err
      | Inr tags \<Rightarrow>
     (case decrypt_merged P (upd_category u) (ick key) False of
        Inl err \<Rightarrow> Inl err
      | Inr category \<Rightarrow>
     (case decrypt_merged P (upd_name u) (ink key) False of
        Inl err \<Rightarrow> Inl err
      | Inr name \<Rightarrow>
     (case derived_value_key P (ihk key) category name of
        Inl err \<Rightarrow> Inl err
      | Inr value_key \<Rightarrow>
     (case decrypt_merged P (upd_value u) value_key False of
        Inl err \<Rightarrow> Inl err
      | Inr val \<Rightarrow>
          Inr \<lparr> item_id = upd_id u, item_type = category, item_name = name,
                item_value = Some val, item_tags = tags \<rparr>)))))"

text \<open>
  \<open>migrated_content\<close> is what the batches written to a wallet read back as, record by
  record. \<open>profile_key_lengths\<close> says that the four encryption keys of the profile key
  have the 32 bytes the AEAD primitive takes. \<open>nonce_free_fields\<close> are the fields of a
  written record other than the value; the value alone is always encrypted with a random
  nonce.
\<close>

definition migrated_content :: "prims \<Rightarrow> profile_key \<Rightarrow> wallet \<Rightarrow> (error + item) list list" where
  "migrated_content P key w = map (map (read_back P key)) (written w)"

definition profile_key_lengths :: "profile_key \<Rightarrow> bool" where
  "profile_key_lengths key \<longleftrightarrow>
     length (ick key) = 32 \<and> length (ink key) = 32 \<and> length (tnk key) = 32
   \<and> length (tvk key) = 32"

definition nonce_free_fields :: "upd_item \<Rightarrow> int \<times> bytes \<times> bytes \<times> tag list" where
  "nonce_free_fields u = (upd_id u, upd_category u, upd_name u, upd_tags u)"

lemma update_rows_single:
  assumes "update_rows P ik pk b64 [r] e = Inr (upd, e')"
  shows "\<exists>it u. decrypt_item P r ik b64 = Inr it \<and> update_item P it pk e = Inr (u, e')
           \<and> upd = [u]"
  using assms by (auto split: sum.splits)

lemma roundtrip_step:
  assumes p: "pending w = r # rest"
    and d: "distinct (map row_id (pending w))"
    and u: "update_rows P ik pk (is_pg w) (fetch_pending_items 1 w) e = Inr (upd, e')"
  shows "\<exists>u. upd = [u] \<and> reencryption_of P ik pk (is_pg w) r u
           \<and> pending (wallet_update_items upd w) = rest
           \<and> written (wallet_update_items upd w) = written w @ [[u]]
           \<and> is_pg (wallet_update_items upd w) = is_pg w
           \<and> profiles (wallet_update_items upd w) = profiles w"
proof -
  from p u have "update_rows P ik pk (is_pg w) [r] e = Inr (upd, e')"
    by (simp add: fetch_pending_items_def)
  then obtain it u where
    it: "decrypt_item P r ik (is_pg w) = Inr it" and
    ui: "update_item P it pk e = Inr (u, e')" and upd: "upd = [u]"
    using update_rows_single by blast
  from it ui have id: "upd_id u = row_id r"
    by (simp add: decrypt_item_id update_item_id)
  from d p have "row_id r \<notin> row_id ` set rest" by simp
  then have "\<forall>x \<in> set rest. row_id x \<noteq> row_id r" by (metis imageI)
  then have "filter (\<lambda>x. row_id x \<noteq> row_id r) rest = rest" by simp
  with p id upd have "pending (wallet_update_items upd w) = rest"
    by (simp add: wallet_update_items_def)
  moreover from it ui have "reencryption_of P ik pk (is_pg w) r u"
    unfolding reencryption_of_def by blast
  ultimately show ?thesis
    using upd by (simp add: wallet_update_items_def)
qed

lemma update_items_fully_migrated:
  "distinct (map row_id (pending w)) \<Longrightarrow> update_items P ik pk w e = (None, w', e') \<Longrightarrow>
     fully_migrated P ik pk w w'"
proof (induction P ik pk w e rule: update_items.induct)
  case (1 P ik pk w e)
  show ?case
  proof (cases "pending w")
    case Nil
    with "1.prems" show ?thesis
      by (simp add: update_items.simps [of P ik pk w e] fetch_pending_items_def
          fully_migrated_def)
  next
    case (Cons r rest)
    then have ne: "fetch_pending_items 1 w \<noteq> []"
      by (simp add: fetch_pending_items_def)
    with "1.prems" obtain upd e1 where
      rows: "update_rows P ik pk (is_pg w) (fetch_pending_items 1 w) e = Inr (upd, e1)" and
      rest: "update_items P ik pk (wallet_update_items upd w) e1 = (None, w', e')"
      by (auto simp: update_items.simps [of P ik pk w e] split: sum.splits)
    from roundtrip_step [OF Cons "1.prems"(1) rows] obtain u where
      u: "upd = [u]" "reencryption_of P ik pk (is_pg w) r u"
        "pending (wallet_update_items upd w) = rest"
        "written (wallet_update_items upd w) = written w @ [[u]]"
        "is_pg (wallet_update_items upd w) = is_pg w"
        "profiles (wallet_update_items upd w) = profiles w"
      by blast
    from "1.prems"(1) Cons u(3) have "distinct (map row_id (pending (wallet_update_items upd w)))"
      by simp
    from "1.IH" [OF ne rows refl this rest]
    have fm: "fully_migrated P ik pk (wallet_update_items upd w) w'" .
    then obtain us where
      us: "written w' = (written w @ [[u]]) @ map (\<lambda>u. [u]) us"
        "list_all2 (reencryption_of P ik pk (is_pg w)) rest us"
      unfolding fully_migrated_def u(3,4,5) by blast
    from us(1) have "written w' = written w @ map (\<lambda>u. [u]) (u # us)" by simp
    moreover from us(2) u(2) Cons
    have "list_all2 (reencryption_of P ik pk (is_pg w)) (pending w) (u # us)" by simp
    ultimately show ?thesis
      using fm unfolding fully_migrated_def u(5,6) by blast
  qed
qed

lemma update_items_upto_progress:
  "distinct (map row_id (pending w)) \<Longrightarrow> update_items_upto n P ik pk w e = (None, w1, e1) \<Longrightarrow>
     \<exists>k us. pending w1 = drop k (pending w) \<and> is_pg w1 = is_pg w \<and> profiles w1 = profiles w
          \<and> written w1 = written w @ map (\<lambda>u. [u]) us
          \<and> list_all2 (reencryption_of P ik pk (is_pg w)) (take k (pending w)) us"
proof (induction n arbitrary: w e)
  case 0
  then have "w1 = w" by simp
  then have "pending w1 = drop 0 (pending w) \<and> is_pg w1 = is_pg w \<and> profiles w1 = profiles w
          \<and> written w1 = written w @ map (\<lambda>u. [u]) []
          \<and> list_all2 (reencryption_of P ik pk (is_pg w)) (take 0 (pending w)) []"
    by simp
  then show ?case by blast
next
  case (Suc n)
  show ?case
  proof (cases "pending w")
    case Nil
    with Suc.prems have "w1 = w" by (simp add: fetch_pending_items_def)
    then have "pending w1 = drop 0 (pending w) \<and> is_pg w1 = is_pg w
          \<and> profiles w1 = profiles w
          \<and> written w1 = written w @ map (\<lambda>u. [u]) []
          \<and> list_all2 (reencryption_of P ik pk (is_pg w)) (take 0 (pending w)) []"
      by simp
    then show ?thesis by blast
  next
    case (Cons r rest)
    then have ne: "fetch_pending_items 1 w \<noteq> []"
      by (simp add: fetch_pending_items_def)
    with Suc.prems obtain upd e' where
      rows: "update_rows P ik pk (is_pg w) (fetch_pending_items 1 w) e = Inr (upd, e')" and
      rest: "update_items_upto n P ik pk (wallet_update_items upd w) e' = (None, w1, e1)"
      by (auto split: sum.splits)
    from roundtrip_step [OF Cons Suc.prems(1) rows] obtain u where
      u: "upd = [u]" "reencryption_of P ik pk (is_pg w) r u"
        "pending (wallet_update_items upd w) = rest"
        "written (wallet_update_items upd w) = written w @ [[u]]"
        "is_pg (wallet_update_items upd w) = is_pg w"
        "profiles (wallet_update_items upd w) = profiles w"
      by blast
    from Suc.prems(1) Cons u(3) have "distinct (map row_id (pending (wallet_update_items upd w)))"
      by simp
    from Suc.IH [OF this rest] obtain k us where
      k: "pending w1 = drop k rest" "is_pg w1 = is_pg w" "profiles w1 = profiles w"
        "written w1 = (written w @ [[u]]) @ map (\<lambda>u. [u]) us"
        "list_all2 (reencryption_of P ik pk (is_pg w)) (take k rest) us"
      unfolding u(3,4,5,6) by blast
    from k Cons u(2) have "pending w1 = drop (Suc k) (pending w) \<and> is_pg w1 = is_pg w
          \<and> profiles w1 = profiles w
          \<and> written w1 = written w @ map (\<lambda>u. [u]) (u # us)
          \<and> list_all2 (reencryption_of P ik pk (is_pg w)) (take (Suc k) (pending w)) (u # us)"
      by simp
    then show ?thesis by blast
  qed
qed

lemma resume_fully_migrated:
  assumes d: "distinct (map row_id (pending w))"
    and stop: "update_items_upto n P ik pk w e = (None, w1, e1)"
    and resume: "update_items P ik pk w1 e2 = (None, w2, e3)"
  shows "fully_migrated P ik pk w w2"
proof -
  from update_items_upto_progress [OF d stop] obtain k us where
    k: "pending w1 = drop k (pending w)" "is_pg w1 = is_pg w" "profiles w1 = profiles w"
      "written w1 = written w @ map (\<lambda>u. [u]) us"
      "list_all2 (reencryption_of P ik pk (is_pg w)) (take k (pending w)) us"
    by blast
  from d k(1) have "distinct (map row_id (pending w1))"
    by (simp add: drop_map [symmetric])
  from update_items_fully_migrated [OF this resume] obtain us2 where
    f: "pending w2 = []" "is_pg w2 = is_pg w1" "profiles w2 = profiles w1"
      "written w2 = written w1 @ map (\<lambda>u. [u]) us2"
      "list_all2 (reencryption_of P ik pk (is_pg w1)) (pending w1) us2"
    unfolding fully_migrated_def by blast
  from f(4) k(4) have "written w2 = written w @ map (\<lambda>u. [u]) (us @ us2)" by simp
  moreover from k(5) f(5) have
    "list_all2 (reencryption_of P ik pk (is_pg w)) (take k (pending w) @ drop k (pending w))
       (us @ us2)"
    unfolding k(1,2) by (rule list_all2_appendI)
  then have "list_all2 (reencryption_of P ik pk (is_pg w)) (pending w) (us @ us2)"
    by simp
  ultimately have "\<exists>us. written w2 = written w @ map (\<lambda>u. [u]) us
            \<and> list_all2 (reencryption_of P ik pk (is_pg w)) (pending w) us"
    by blast
  with f(1,2,3) k(2,3) show ?thesis
    unfolding fully_migrated_def by simp
qed


lemma update_items_rerun:
  assumes "update_items P ik pk w e = (None, w', e')"
  shows "update_items P ik pk w' e2 = (None, w', e2)"
proof -
  from assms have "fetch_pending_items 1 w' = []" by (rule update_items_done)
  then show ?thesis by (simp add: update_items.simps [of P ik pk w' e2])
qed

lemma decrypt_encrypt_merged:
  assumes "aead_contract P" and "hmac_contract P" and "length K = 32"
    and enc: "encrypt_merged P M K hk e = Inr (c, e')"
  shows "decrypt_merged P c K False = Inr M"
proof -
  define ne where "ne = (case hk of
           None \<Rightarrow> urandom CHACHAPOLY_NONCE_LEN e
         | Some h \<Rightarrow>
             if h \<noteq> [] then (take CHACHAPOLY_NONCE_LEN (hmac_sha256 P h M), e)
             else urandom CHACHAPOLY_NONCE_LEN e)"
  obtain nonce e1 where ne: "ne = (nonce, e1)" by (cases ne)
  have "length (fst ne) = CHACHAPOLY_NONCE_LEN"
    unfolding ne_def using assms(2) by (rule encrypt_merged_nonce_length)
  with ne have ln: "length nonce = CHACHAPOLY_NONCE_LEN" by simp
  from assms(3) have lk: "length K = CHACHAPOLY_KEY_LEN"
    by (simp add: CHACHAPOLY_KEY_LEN_def)
  from assms(1) ln lk obtain ct where
    ct: "aead_encrypt P M nonce K = Inr ct" and
    dec: "aead_decrypt P ct nonce K = Inr M"
    unfolding aead_contract_def by blast
  have "encrypt_merged P M K hk e = Inr (nonce @ ct, e1)"
    using ne ct unfolding encrypt_merged_def ne_def [symmetric] by simp
  with enc have "c = nonce @ ct" by simp
  with ln dec show ?thesis by (simp add: decrypt_merged_def)
qed

lemma read_back_update_tags:
  assumes "aead_contract P" and "hmac_contract P"
    and "length (tnk key) = 32" and "length (tvk key) = 32"
  shows "update_tags P ts key e = Inr (ts', e') \<Longrightarrow> read_back_tags P key ts' = Inr ts"
proof (induction ts arbitrary: e ts' e')
  case Nil
  then show ?case by simp
next
  case (Cons t ts)
  obtain plain k v where t: "t = (plain, k, v)" by (cases t)
  from Cons.prems t obtain v' k' rest e1 e2 where
    ts': "ts' = (plain, k', v') # rest" and
    rest: "update_tags P ts key e2 = Inr (rest, e')" and
    k': "encrypt_merged P k (tnk key) (Some (thk key)) e1 = Inr (k', e2)" and
    v': "if plain = 0
         then \<exists>vb vc. v = TVBytes vb \<and> v' = TVBytes vc
                \<and> encrypt_merged P vb (tvk key) (Some (thk key)) e = Inr (vc, e1)
         else v' = v"
    by (auto split: sum.splits if_splits tagval.splits)
  from rest have r: "read_back_tags P key rest = Inr ts" by (rule Cons.IH)
  from k' have dk: "decrypt_merged P k' (tnk key) False = Inr k"
    by (rule decrypt_encrypt_merged [OF assms(1,2,3)])
  have "read_back_tag P key (plain, k', v') = Inr (plain, k, v)"
  proof (cases "plain = 0")
    case True
    with v' obtain vb vc where vb: "v = TVBytes vb" "v' = TVBytes vc"
      "encrypt_merged P vb (tvk key) (Some (thk key)) e = Inr (vc, e1)" by auto
    from vb(3) have "decrypt_merged P vc (tvk key) False = Inr vb"
      by (rule decrypt_encrypt_merged [OF assms(1,2,4)])
    with True dk vb show ?thesis by simp
  next
    case False
    with v' dk show ?thesis by simp
  qed
  with r ts' t show ?case by simp
qed

lemma encrypt_value_read_back:
  assumes "aead_contract P" and "hmac_contract P"
    and enc: "encrypt_value P category name val hmac_key e = Inr (c, e')"
  shows "\<exists>vk v. val = Some v \<and> derived_value_key P hmac_key category name = Inr vk
           \<and> decrypt_merged P c vk False = Inr v"
proof -
  from enc obtain lc ln v where
    lc: "to_bytes4_big (length category) = Inr lc" and
    ln: "to_bytes4_big (length name) = Inr ln" and
    v: "val = Some v" and
    e: "encrypt_merged P v (hmac_sha256 P hmac_key (lc @ category @ ln @ name)) None e
          = Inr (c, e')"
    by (auto simp: encrypt_value_def hmac_new_def hasher_update_def hasher_digest_def Let_def
        split: sum.splits option.splits)
  from assms(2) have "length (hmac_sha256 P hmac_key (lc @ category @ ln @ name)) = 32"
    by (simp add: hmac_contract_def)
  from decrypt_encrypt_merged [OF assms(1,2) this e] lc ln v show ?thesis
    by (simp add: derived_value_key_def)
qed

lemma update_item_read_back:
  assumes c: "aead_contract P" "hmac_contract P" and k: "profile_key_lengths key"
    and u: "update_item P it key e = Inr (u, e')"
  shows "read_back P key u = Inr it"
proof -
  from k have l: "length (ick key) = 32" "length (ink key) = 32" "length (tnk key) = 32"
    "length (tvk key) = 32"
    by (simp_all add: profile_key_lengths_def)
  from u obtain tags e1 category e2 name e3 val where
    t: "update_tags P (item_tags it) key e = Inr (tags, e1)" and
    cat: "encrypt_merged P (item_type it) (ick key) (Some (ihk key)) e1 = Inr (category, e2)" and
    nm: "encrypt_merged P (item_name it) (ink key) (Some (ihk key)) e2 = Inr (name, e3)" and
    v: "encrypt_value P (item_type it) (item_name it) (item_value it) (ihk key) e3
          = Inr (val, e')" and
    ueq: "u = \<lparr> upd_id = item_id it, upd_category = category, upd_name = name,
                upd_value = val, upd_tags = tags \<rparr>"
    by (auto simp: update_item_def split: sum.splits)
  from t have rt: "read_back_tags P key tags = Inr (item_tags it)"
    by (rule read_back_update_tags [OF c l(3,4)])
  from cat have rc: "decrypt_merged P category (ick key) False = Inr (item_type it)"
    by (rule decrypt_encrypt_merged [OF c l(1)])
  from nm have rn: "decrypt_merged P name (ink key) False = Inr (item_name it)"
    by (rule decrypt_encrypt_merged [OF c l(2)])
  from encrypt_value_read_back [OF c v] obtain vk x where
    rv: "item_value it = Some x"
      "derived_value_key P (ihk key) (item_type it) (item_name it) = Inr vk"
      "decrypt_merged P val vk False = Inr x"
    by blast
  have "it = \<lparr> item_id = item_id it, item_type = item_type it, item_name = item_name it,
               item_value = Some x, item_tags = item_tags it \<rparr>"
    using rv(1) by simp
  with rt rc rn rv(2,3) ueq show ?thesis
    by (simp add: read_back_def)
qed

lemma reencryption_read_back:
  assumes c: "aead_contract P" "hmac_contract P" and k: "profile_key_lengths pk"
    and r: "reencryption_of P ik pk b64 r u"
  shows "read_back P pk u = decrypt_item P r ik b64 \<and> upd_id u = row_id r
         \<and> (\<exists>it. decrypt_item P r ik b64 = Inr it)"
proof -
  from r obtain it e e' where
    d: "decrypt_item P r ik b64 = Inr it" and u: "update_item P it pk e = Inr (u, e')"
    unfolding reencryption_of_def by blast
  from update_item_read_back [OF c k u] d decrypt_item_id [OF d] update_item_id [OF u]
  show ?thesis by simp
qed

lemma update_tags_same:
  assumes "thk key \<noteq> []"
    and "update_tags P ts key e = Inr (ts1, e1)" and "update_tags P ts key e2 = Inr (ts2, e3)"
  shows "ts1 = ts2"
proof -
  from assms have a: "list_all2 (tag_reencrypted P key) ts ts1"
    and b: "list_all2 (tag_reencrypted P key) ts ts2"
    using update_tags_deterministic by blast+
  then show ?thesis
  proof (induction ts ts1 arbitrary: ts2 rule: list_all2_induct)
    case Nil
    then show ?case by simp
  next
    case (Cons x xs y ys)
    from Cons.prems obtain z zs where z: "ts2 = z # zs" "tag_reencrypted P key x z"
      "list_all2 (tag_reencrypted P key) xs zs"
      by (auto simp: list_all2_Cons1)
    from Cons.IH [OF z(3)] have "ys = zs" .
    moreover from Cons.hyps(1) z(2) have "y = z"
      by (cases x; cases y; cases z) (auto split: if_splits)
    ultimately show ?case using z(1) by simp
  qed
qed

lemma update_item_same_fields:
  assumes "ihk key \<noteq> []" and "thk key \<noteq> []"
    and "update_item P it key e = Inr (u, e1)" and "update_item P it key e2 = Inr (u2, e3)"
  shows "nonce_free_fields u = nonce_free_fields u2"
proof -
  from assms(3) obtain tags ea where
    t1: "update_tags P (item_tags it) key e = Inr (tags, ea)" and
    c1: "deterministic_merged P (item_type it) (ick key) (ihk key) = Inr (upd_category u)" and
    n1: "deterministic_merged P (item_name it) (ink key) (ihk key) = Inr (upd_name u)" and
    i1: "upd_id u = item_id it" "upd_tags u = tags"
    using assms(1)
    by (auto simp: update_item_def encrypt_merged_hmac_path split: sum.splits)
  from assms(4) obtain tags2 eb where
    t2: "update_tags P (item_tags it) key e2 = Inr (tags2, eb)" and
    c2: "deterministic_merged P (item_type it) (ick key) (ihk key) = Inr (upd_category u2)" and
    n2: "deterministic_merged P (item_name it) (ink key) (ihk key) = Inr (upd_name u2)" and
    i2: "upd_id u2 = item_id it" "upd_tags u2 = tags2"
    using assms(1)
    by (auto simp: update_item_def encrypt_merged_hmac_path split: sum.splits)
  from update_tags_same [OF assms(2) t1 t2] have "tags = tags2" .
  with c1 c2 n1 n2 i1 i2 show ?thesis
    by (simp add: nonce_free_fields_def)
qed

lemma reencryption_same_fields:
  assumes "ihk pk \<noteq> []" and "thk pk \<noteq> []"
    and "reencryption_of P ik pk b64 r u" and "reencryption_of P ik pk b64 r u2"
  shows "nonce_free_fields u = nonce_free_fields u2"
  using assms update_item_same_fields unfolding reencryption_of_def
  by (metis sum.inject(2))

lemma list_all2_map_eq:
  "list_all2 (\<lambda>x y. f y = g x) xs ys \<Longrightarrow> map f ys = map g xs"
  by (induction xs ys rule: list_all2_induct) simp_all

lemma list_all2_same_image:
  assumes "list_all2 R xs ys" and "list_all2 R xs zs"
    and "\<And>x y z. R x y \<Longrightarrow> R x z \<Longrightarrow> f y = f z"
  shows "map f ys = map f zs"
  using assms(1,2)
proof (induction xs ys arbitrary: zs rule: list_all2_induct)
  case Nil
  then show ?case by simp
next
  case (Cons x xs y ys)
  from Cons.prems obtain z zs' where z: "zs = z # zs'" "R x z" "list_all2 R xs zs'"
    by (auto simp: list_all2_Cons1)
  from Cons.IH [OF z(3)] assms(3) [OF Cons.hyps(1) z(2)] z(1) show ?case by simp
qed

lemma fully_migrated_content:
  assumes c: "aead_contract P" "hmac_contract P" and k: "profile_key_lengths pk"
    and f: "fully_migrated P ik pk w w'"
  shows "migrated_content P pk w'
           = migrated_content P pk w @ map (\<lambda>r. [decrypt_item P r ik (is_pg w)]) (pending w)
       \<and> map (map upd_id) (written w')
           = map (map upd_id) (written w) @ map (\<lambda>r. [row_id r]) (pending w)
       \<and> list_all (\<lambda>r. \<not> isl (decrypt_item P r ik (is_pg w))) (pending w)"
proof -
  from f obtain us where
    wr: "written w' = written w @ map (\<lambda>u. [u]) us" and
    la: "list_all2 (reencryption_of P ik pk (is_pg w)) (pending w) us"
    unfolding fully_migrated_def by blast
  from la have a: "list_all2 (\<lambda>r u. read_back P pk u = decrypt_item P r ik (is_pg w)
        \<and> upd_id u = row_id r \<and> (\<exists>it. decrypt_item P r ik (is_pg w) = Inr it)) (pending w) us"
    by (rule list_all2_mono) (rule reencryption_read_back [OF c k])
  then have "list_all2 (\<lambda>r u. read_back P pk u = decrypt_item P r ik (is_pg w)) (pending w) us"
    by (rule list_all2_mono) simp
  then have m1: "map (read_back P pk) us = map (\<lambda>r. decrypt_item P r ik (is_pg w)) (pending w)"
    by (rule list_all2_map_eq)
  from a have "list_all2 (\<lambda>r u. upd_id u = row_id r) (pending w) us"
    by (rule list_all2_mono) simp
  then have m2: "map upd_id us = map row_id (pending w)"
    by (rule list_all2_map_eq)
  from a have m3: "list_all (\<lambda>r. \<not> isl (decrypt_item P r ik (is_pg w))) (pending w)"
    by (induction rule: list_all2_induct) auto
  have "map (map (read_back P pk)) (map (\<lambda>u. [u]) us) = map (\<lambda>x. [x]) (map (read_back P pk) us)"
    by (simp add: o_def)
  with m1 have "map (map (read_back P pk)) (map (\<lambda>u. [u]) us)
                  = map (\<lambda>r. [decrypt_item P r ik (is_pg w)]) (pending w)"
    by (simp add: o_def)
  moreover have "map (map upd_id) (map (\<lambda>u. [u]) us) = map (\<lambda>x. [x]) (map upd_id us)"
    by (simp add: o_def)
  with m2 have "map (map upd_id) (map (\<lambda>u. [u]) us) = map (\<lambda>r. [row_id r]) (pending w)"
    by (simp add: o_def)
  ultimately show ?thesis
    using wr m3 by (simp add: migrated_content_def)
qed

lemma fully_migrated_same_fields:
  assumes h: "ihk pk \<noteq> []" "thk pk \<noteq> []"
    and f1: "fully_migrated P ik pk w w1" and f2: "fully_migrated P ik pk w w2"
  shows "map (map nonce_free_fields) (written w1) = map (map nonce_free_fields) (written w2)"
proof -
  from f1 obtain us where
    wr: "written w1 = written w @ map (\<lambda>u. [u]) us" and
    la: "list_all2 (reencryption_of P ik pk (is_pg w)) (pending w) us"
    unfolding fully_migrated_def by blast
  from f2 obtain vs where
    wr2: "written w2 = written w @ map (\<lambda>u. [u]) vs" and
    la2: "list_all2 (reencryption_of P ik pk (is_pg w)) (pending w) vs"
    unfolding fully_migrated_def by blast
  from la la2 have "map nonce_free_fields us = map nonce_free_fields vs"
    by (rule list_all2_same_image) (rule reencryption_same_fields [OF h])
  then have "map (\<lambda>x. [x]) (map nonce_free_fields us) = map (\<lambda>x. [x]) (map nonce_free_fields vs)"
    by simp
  then have "map (map nonce_free_fields) (map (\<lambda>u. [u]) us)
           = map (map nonce_free_fields) (map (\<lambda>u. [u]) vs)"
    by (simp add: o_def)
  with wr wr2 show ?thesis by simp
qed

lemma encrypt_merged_total:
  assumes "aead_contract P" and "hmac_contract P" and "length K = 32"
  shows "\<exists>c e'. encrypt_merged P M K hk e = Inr (c, e')"
proof -
  define ne where "ne = (case hk of
           None \<Rightarrow> urandom CHACHAPOLY_NONCE_LEN e
         | Some h \<Rightarrow>
             if h \<noteq> [] then (take CHACHAPOLY_NONCE_LEN (hmac_sha256 P h M), e)
             else urandom CHACHAPOLY_NONCE_LEN e)"
  obtain nonce e1 where ne: "ne = (nonce, e1)" by (cases ne)
  have "length (fst ne) = CHACHAPOLY_NONCE_LEN"
    unfolding ne_def using assms(2) by (rule encrypt_merged_nonce_length)
  with ne have ln: "length nonce = CHACHAPOLY_NONCE_LEN" by simp
  from assms(3) have lk: "length K = CHACHAPOLY_KEY_LEN"
    by (simp add: CHACHAPOLY_KEY_LEN_def)
  from assms(1) ln lk obtain ct where ct: "aead_encrypt P M nonce K = Inr ct"
    unfolding aead_contract_def by blast
  have "encrypt_merged P M K hk e = Inr (nonce @ ct, e1)"
    using ne ct unfolding encrypt_merged_def ne_def [symmetric] by simp
  then show ?thesis by blast
qed

lemma update_tags_completes:
  assumes "aead_contract P" and "hmac_contract P"
    and "length (tnk key) = 32" and "length (tvk key) = 32"
  shows "update_tags P ts key e = Inr (ts', e') \<Longrightarrow>
           \<exists>ts2 e3. update_tags P ts key e2 = Inr (ts2, e3)"
proof (induction ts arbitrary: e ts' e' e2)
  case Nil
  then show ?case by simp
next
  case (Cons t ts)
  obtain plain k v where t: "t = (plain, k, v)" by (cases t)
  from Cons.prems t obtain rest er where
    rest: "update_tags P ts key er = Inr (rest, e')" and
    v: "plain = 0 \<longrightarrow> (\<exists>vb. v = TVBytes vb)"
    by (auto split: sum.splits if_splits tagval.splits)
  have "\<exists>v' ea. (if plain = 0
            then (case v of
                    TVStr s \<Rightarrow> Inl TypeError
                  | TVBytes vb \<Rightarrow>
                     (case encrypt_merged P vb (tvk key) (Some (thk key)) e2 of
                        Inl err \<Rightarrow> Inl err
                      | Inr (c, e1) \<Rightarrow> Inr (TVBytes c, e1)))
            else Inr (v, e2)) = Inr (v', ea)"
  proof (cases "plain = 0")
    case True
    with v obtain vb where vb: "v = TVBytes vb" by blast
    from encrypt_merged_total [OF assms(1,2,4)] obtain c e1 where
      "encrypt_merged P vb (tvk key) (Some (thk key)) e2 = Inr (c, e1)" by blast
    with True vb show ?thesis by simp
  next
    case False
    then show ?thesis by simp
  qed
  then obtain v' ea where v': "(if plain = 0
            then (case v of
                    TVStr s \<Rightarrow> Inl TypeError
                  | TVBytes vb \<Rightarrow>
                     (case encrypt_merged P vb (tvk key) (Some (thk key)) e2 of
                        Inl err \<Rightarrow> Inl err
                      | Inr (c, e1) \<Rightarrow> Inr (TVBytes c, e1)))
            else Inr (v, e2)) = Inr (v', ea)"
    by blast
  from encrypt_merged_total [OF assms(1,2,3)] obtain k' eb where
    k': "encrypt_merged P k (tnk key) (Some (thk key)) ea = Inr (k', eb)" by blast
  from Cons.IH [OF rest] obtain ts2 e3 where
    "update_tags P ts key eb = Inr (ts2, e3)" by blast
  with v' k' t show ?case by simp
qed

lemma encrypt_value_completes:
  assumes "aead_contract P" and "hmac_contract P"
    and enc: "encrypt_value P category name val hmac_key e = Inr (c, e')"
  shows "\<exists>c2 e3. encrypt_value P category name val hmac_key e2 = Inr (c2, e3)"
proof -
  from enc obtain lc ln v where
    lc: "to_bytes4_big (length category) = Inr lc" and
    ln: "to_bytes4_big (length name) = Inr ln" and
    v: "val = Some v"
    by (auto simp: encrypt_value_def Let_def split: sum.splits option.splits)
  from assms(2) have "length (hmac_sha256 P hmac_key (lc @ category @ ln @ name)) = 32"
    by (simp add: hmac_contract_def)
  from encrypt_merged_total [OF assms(1,2) this] obtain c2 e3 where
    "encrypt_merged P v (hmac_sha256 P hmac_key (lc @ category @ ln @ name)) None e2
       = Inr (c2, e3)"
    by blast
  with lc ln v show ?thesis
    by (simp add: encrypt_value_def hmac_new_def hasher_update_def hasher_digest_def)
qed

lemma update_item_completes:
  assumes c: "aead_contract P" "hmac_contract P" and k: "profile_key_lengths key"
    and u: "update_item P it key e = Inr (u, e')"
  shows "\<exists>u2 e3. update_item P it key e2 = Inr (u2, e3)"
proof -
  from k have l: "length (ick key) = 32" "length (ink key) = 32" "length (tnk key) = 32"
    "length (tvk key) = 32"
    by (simp_all add: profile_key_lengths_def)
  from u obtain tags e1 ev val where
    t: "update_tags P (item_tags it) key e = Inr (tags, e1)" and
    v: "encrypt_value P (item_type it) (item_name it) (item_value it) (ihk key) ev
          = Inr (val, e')"
    by (auto simp: update_item_def split: sum.splits)
  from update_tags_completes [OF c l(3,4) t] obtain tags2 ea where
    t2: "update_tags P (item_tags it) key e2 = Inr (tags2, ea)" by blast
  from encrypt_merged_total [OF c l(1)] obtain category eb where
    c2: "encrypt_merged P (item_type it) (ick key) (Some (ihk key)) ea = Inr (category, eb)"
    by blast
  from encrypt_merged_total [OF c l(2)] obtain name ec where
    n2: "encrypt_merged P (item_name it) (ink key) (Some (ihk key)) eb = Inr (name, ec)"
    by blast
  from encrypt_value_completes [OF c v] obtain val2 ed where
    "encrypt_value P (item_type it) (item_name it) (item_value it) (ihk key) ec
       = Inr (val2, ed)"
    by blast
  with t2 c2 n2 show ?thesis
    by (simp add: update_item_def)
qed

lemma update_items_completes:
  assumes c: "aead_contract P" "hmac_contract P" and k: "profile_key_lengths pk"
  shows "distinct (map row_id (pending w)) \<Longrightarrow>
         list_all2 (reencryption_of P ik pk (is_pg w)) (pending w) us \<Longrightarrow>
           \<exists>w' e'. update_items P ik pk w e = (None, w', e')"
proof (induction us arbitrary: w e)
  case Nil
  then have "fetch_pending_items 1 w = []"
    by (simp add: fetch_pending_items_def)
  then show ?case by (simp add: update_items.simps [of P ik pk w e])
next
  case (Cons u us)
  from Cons.prems(2) obtain r rest where
    p: "pending w = r # rest" and ru: "reencryption_of P ik pk (is_pg w) r u" and
    la: "list_all2 (reencryption_of P ik pk (is_pg w)) rest us"
    by (auto simp: list_all2_Cons2)
  from ru obtain it e0 e0' where
    d: "decrypt_item P r ik (is_pg w) = Inr it" and
    u0: "update_item P it pk e0 = Inr (u, e0')"
    unfolding reencryption_of_def by blast
  from update_item_completes [OF c k u0] obtain u2 e1 where
    u2: "update_item P it pk e = Inr (u2, e1)" by blast
  from p have f: "fetch_pending_items 1 w = [r]"
    by (simp add: fetch_pending_items_def)
  with d u2 have rows:
    "update_rows P ik pk (is_pg w) (fetch_pending_items 1 w) e = Inr ([u2], e1)"
    by simp
  from roundtrip_step [OF p Cons.prems(1) rows] have
    n: "pending (wallet_update_items [u2] w) = rest"
      "is_pg (wallet_update_items [u2] w) = is_pg w"
    by auto
  from Cons.prems(1) p n(1) have
    "distinct (map row_id (pending (wallet_update_items [u2] w)))" by simp
  moreover from la n have
    "list_all2 (reencryption_of P ik pk (is_pg (wallet_update_items [u2] w)))
       (pending (wallet_update_items [u2] w)) us"
    by simp
  ultimately obtain w' e' where
    "update_items P ik pk (wallet_update_items [u2] w) e1 = (None, w', e')"
    using Cons.IH by blast
  with f rows show ?case
    by (simp add: update_items.simps [of P ik pk w e])
qed

lemma fully_migrated_completes:
  assumes c: "aead_contract P" "hmac_contract P" and k: "profile_key_lengths pk"
    and d: "distinct (map row_id (pending w))" and f: "fully_migrated P ik pk w w2"
  shows "\<exists>w' e'. update_items P ik pk w e = (None, w', e')"
proof -
  from f obtain us where "list_all2 (reencryption_of P ik pk (is_pg w)) (pending w) us"
    unfolding fully_migrated_def by blast
  with d show ?thesis by (rule update_items_completes [OF c k])
qed

lemma fully_migrated_frame:
  assumes "fully_migrated P ik pk w w1" and "fully_migrated P ik pk w w2"
  shows "pending w1 = pending w2 \<and> profiles w1 = profiles w2 \<and> is_pg w1 = is_pg w2"
  using assms by (simp add: fully_migrated_def)

text \<open>
  Claim C4. Each round trip of \<open>update_items\<close> fetches at most one pending row. The
  loop returns without a write when the fetch is empty; otherwise it writes the fetched
  row back re-encrypted, as one batch, before it fetches again, and the written row is
  no longer pending; an exception in a round trip ends the loop with the wallet as the
  previous round trips left it. When the loop returns normally the next fetch is empty
  and a rerun returns at once with the wallet unchanged (no further write). A run
  stopped after any number of round trips and resumed gives exactly the result of the
  uninterrupted run when it draws the same random bytes; whatever bytes are drawn, when
  row ids are distinct, the resumed run and the uninterrupted run both end with the
  migrated content of the initial wallet.

  Re-encrypted means: under the library contract and with 32-byte profile keys, the
  record that \<open>update_item\<close> writes for a row reads back under the profile key as
  exactly the item that \<open>decrypt_item\<close> recovered from the row under the Indy key.
  With distinct row ids, a run that returns normally has added one batch per pending
  row, in order, and the batches read back as the decrypted rows; and when a run that
  was stopped after any number of round trips and resumed, with any random bytes,
  returns normally, the uninterrupted run returns normally too whatever random bytes it
  draws, and the two final wallets have the same migrated content: the same record ids
  in the same batches, records that read back equal, the same pending rows and profiles
  and, when the HMAC keys are non-empty, records that are byte for byte equal apart from
  the value ciphertexts.
\<close>

theorem update_items_resumable:
  "length (fetch_pending_items 1 w) \<le> 1
   \<and> (fetch_pending_items 1 w = [] \<longrightarrow> update_items P ik pk w e = (None, w, e))
   \<and> (fetch_pending_items 1 w = [r] \<and> decrypt_item P r ik (is_pg w) = Inr it
        \<and> update_item P it pk e = Inr (u, e1) \<longrightarrow>
          update_items P ik pk w e = update_items P ik pk (wallet_update_items [u] w) e1
        \<and> written (wallet_update_items [u] w) = written w @ [[u]]
        \<and> r \<notin> set (pending (wallet_update_items [u] w)))
   \<and> (fetch_pending_items 1 w \<noteq> []
        \<and> update_rows P ik pk (is_pg w) (fetch_pending_items 1 w) e = Inl err \<longrightarrow>
          update_items P ik pk w e = (Some err, w, e))
   \<and> (update_items P ik pk w e = (None, w', e') \<longrightarrow>
          fetch_pending_items 1 w' = [] \<and> update_items P ik pk w' e2 = (None, w', e2))
   \<and> (update_items_upto n P ik pk w e = (None, w1, e3) \<longrightarrow>
          update_items P ik pk w1 e3 = update_items P ik pk w e)
   \<and> (distinct (map row_id (pending w)) \<and> update_items P ik pk w e = (None, w', e') \<longrightarrow>
          fully_migrated P ik pk w w')
   \<and> (distinct (map row_id (pending w)) \<and> update_items_upto n P ik pk w e = (None, w1, e3)
        \<and> update_items P ik pk w1 e4 = (None, w2, e5) \<longrightarrow>
          fully_migrated P ik pk w w2)
   \<and> (aead_contract P \<and> hmac_contract P \<and> profile_key_lengths pk
        \<and> decrypt_item P r ik (is_pg w) = Inr it \<and> update_item P it pk e = Inr (u, e1) \<longrightarrow>
          read_back P pk u = Inr it \<and> upd_id u = row_id r)
   \<and> (aead_contract P \<and> hmac_contract P \<and> profile_key_lengths pk
        \<and> distinct (map row_id (pending w)) \<and> update_items P ik pk w e = (None, w', e') \<longrightarrow>
          migrated_content P pk w'
            = migrated_content P pk w
              @ map (\<lambda>r. [decrypt_item P r ik (is_pg w)]) (pending w)
        \<and> map (map upd_id) (written w')
            = map (map upd_id) (written w) @ map (\<lambda>r. [row_id r]) (pending w)
        \<and> list_all (\<lambda>r. \<not> isl (decrypt_item P r ik (is_pg w))) (pending w))
   \<and> (aead_contract P \<and> hmac_contract P \<and> profile_key_lengths pk
        \<and> distinct (map row_id (pending w)) \<and> update_items_upto n P ik pk w e = (None, w1, e3)
        \<and> update_items P ik pk w1 e4 = (None, w2, e5) \<longrightarrow>
          (\<exists>w3 e7. update_items P ik pk w e6 = (None, w3, e7)
             \<and> migrated_content P pk w2 = migrated_content P pk w3
             \<and> map (map upd_id) (written w2) = map (map upd_id) (written w3)
             \<and> pending w2 = pending w3 \<and> profiles w2 = profiles w3 \<and> is_pg w2 = is_pg w3
             \<and> (ihk pk \<noteq> [] \<and> thk pk \<noteq> [] \<longrightarrow>
                  map (map nonce_free_fields) (written w2)
                    = map (map nonce_free_fields) (written w3)))
        \<and> migrated_content P pk w2
            = migrated_content P pk w
              @ map (\<lambda>r. [decrypt_item P r ik (is_pg w)]) (pending w)
        \<and> list_all (\<lambda>r. \<not> isl (decrypt_item P r ik (is_pg w))) (pending w))"
proof (intro conjI impI)
  show "length (fetch_pending_items 1 w) \<le> 1"
    by (simp add: fetch_pending_items_def)
next
  assume "fetch_pending_items 1 w = []"
  then show "update_items P ik pk w e = (None, w, e)"
    by (simp add: update_items.simps [of P ik pk w e])
next
  assume a: "fetch_pending_items 1 w = [r] \<and> decrypt_item P r ik (is_pg w) = Inr it
        \<and> update_item P it pk e = Inr (u, e1)"
  then have rows: "update_rows P ik pk (is_pg w) (fetch_pending_items 1 w) e = Inr ([u], e1)"
    by simp
  with a show "update_items P ik pk w e = update_items P ik pk (wallet_update_items [u] w) e1"
    by (simp add: update_items.simps [of P ik pk w e])
  show "written (wallet_update_items [u] w) = written w @ [[u]]"
    by (simp add: wallet_update_items_def)
  from a have "item_id it = row_id r" and "upd_id u = item_id it"
    using decrypt_item_id update_item_id by blast+
  then have "upd_id u = row_id r" by simp
  then show "r \<notin> set (pending (wallet_update_items [u] w))"
    by (simp add: wallet_update_items_def)
next
  assume "fetch_pending_items 1 w \<noteq> []
        \<and> update_rows P ik pk (is_pg w) (fetch_pending_items 1 w) e = Inl err"
  then show "update_items P ik pk w e = (Some err, w, e)"
    by (simp add: update_items.simps [of P ik pk w e])
next
  assume a: "update_items P ik pk w e = (None, w', e')"
  then show "fetch_pending_items 1 w' = []" by (rule update_items_done)
  from a show "update_items P ik pk w' e2 = (None, w', e2)" by (rule update_items_rerun)
next
  assume "update_items_upto n P ik pk w e = (None, w1, e3)"
  then show "update_items P ik pk w1 e3 = update_items P ik pk w e"
    by (rule update_items_resume)
next
  assume "distinct (map row_id (pending w)) \<and> update_items P ik pk w e = (None, w', e')"
  then show "fully_migrated P ik pk w w'"
    using update_items_fully_migrated by blast
next
  assume "distinct (map row_id (pending w)) \<and> update_items_upto n P ik pk w e = (None, w1, e3)
        \<and> update_items P ik pk w1 e4 = (None, w2, e5)"
  then show "fully_migrated P ik pk w w2"
    using resume_fully_migrated by blast
next
  assume a: "aead_contract P \<and> hmac_contract P \<and> profile_key_lengths pk
        \<and> decrypt_item P r ik (is_pg w) = Inr it \<and> update_item P it pk e = Inr (u, e1)"
  then show "read_back P pk u = Inr it"
    using update_item_read_back by blast
  from a have "item_id it = row_id r" and "upd_id u = item_id it"
    using decrypt_item_id update_item_id by blast+
  then show "upd_id u = row_id r" by simp
next
  assume a: "aead_contract P \<and> hmac_contract P \<and> profile_key_lengths pk
        \<and> distinct (map row_id (pending w)) \<and> update_items P ik pk w e = (None, w', e')"
  then have "fully_migrated P ik pk w w'"
    using update_items_fully_migrated by blast
  with a have "migrated_content P pk w'
            = migrated_content P pk w
              @ map (\<lambda>r. [decrypt_item P r ik (is_pg w)]) (pending w)
        \<and> map (map upd_id) (written w')
            = map (map upd_id) (written w) @ map (\<lambda>r. [row_id r]) (pending w)
        \<and> list_all (\<lambda>r. \<not> isl (decrypt_item P r ik (is_pg w))) (pending w)"
    using fully_migrated_content by blast
  then show "migrated_content P pk w'
            = migrated_content P pk w
              @ map (\<lambda>r. [decrypt_item P r ik (is_pg w)]) (pending w)"
    "map (map upd_id) (written w')
            = map (map upd_id) (written w) @ map (\<lambda>r. [row_id r]) (pending w)"
    "list_all (\<lambda>r. \<not> isl (decrypt_item P r ik (is_pg w))) (pending w)"
    by simp_all
next
  assume a: "aead_contract P \<and> hmac_contract P \<and> profile_key_lengths pk
        \<and> distinct (map row_id (pending w)) \<and> update_items_upto n P ik pk w e = (None, w1, e3)
        \<and> update_items P ik pk w1 e4 = (None, w2, e5)"
  then have c: "aead_contract P" "hmac_contract P" and k: "profile_key_lengths pk"
    and d: "distinct (map row_id (pending w))"
    by simp_all
  from a have f2: "fully_migrated P ik pk w w2"
    using resume_fully_migrated by blast
  from fully_migrated_completes [OF c k d f2] obtain w3 e7 where
    run: "update_items P ik pk w e6 = (None, w3, e7)" by blast
  with d have f3: "fully_migrated P ik pk w w3"
    by (rule update_items_fully_migrated)
  note c2 = fully_migrated_content [OF c k f2] and c3 = fully_migrated_content [OF c k f3]
  from c2 c3 have "migrated_content P pk w2 = migrated_content P pk w3"
    and "map (map upd_id) (written w2) = map (map upd_id) (written w3)"
    by simp_all
  moreover have "ihk pk \<noteq> [] \<and> thk pk \<noteq> [] \<longrightarrow>
                  map (map nonce_free_fields) (written w2)
                    = map (map nonce_free_fields) (written w3)"
    using fully_migrated_same_fields [OF _ _ f2 f3] by blast
  ultimately show "\<exists>w3 e7. update_items P ik pk w e6 = (None, w3, e7)
             \<and> migrated_content P pk w2 = migrated_content P pk w3
             \<and> map (map upd_id) (written w2) = map (map upd_id) (written w3)
             \<and> pending w2 = pending w3 \<and> profiles w2 = profiles w3 \<and> is_pg w2 = is_pg w3
             \<and> (ihk pk \<noteq> [] \<and> thk pk \<noteq> [] \<longrightarrow>
                  map (map nonce_free_fields) (written w2)
                    = map (map nonce_free_fields) (written w3))"
    using run fully_migrated_frame [OF f2 f3] by blast
  from c2 show "migrated_content P pk w2
            = migrated_content P pk w
              @ map (\<lambda>r. [decrypt_item P r ik (is_pg w)]) (pending w)"
    "list_all (\<lambda>r. \<not> isl (decrypt_item P r ik (is_pg w))) (pending w)"
    by simp_all
qed

text \<open>
  A wallet of two rows to run the loop on, encrypted for the small instance of the
  primitives under a key bundle whose keys all differ, and the profile key that
  \<^verbatim>\<open>init_profile\<close> builds from that bundle. Row \<open>row_b\<close> has one encrypted and
  one plaintext tag. \<open>written_a\<close> and \<open>written_b\<close> are the records written for the
  two rows when the value nonce is the given 12 bytes. The run that is stopped after one
  round trip draws the bytes 1, its resumption the bytes 2, the uninterrupted run the
  bytes 3.
\<close>

definition legacy_keys :: indy_key where
  "legacy_keys = \<lparr> ik_type = replicate 32 1, ik_name = replicate 32 2,
     ik_value = replicate 32 3, ik_item_hmac = replicate 32 4, ik_tag_name = replicate 32 5,
     ik_tag_value = replicate 32 6, ik_tag_hmac = replicate 32 7, ik_master = replicate 32 8,
     ik_salt = replicate 16 9 \<rparr>"

definition rekey_key :: profile_key where
  "rekey_key = \<lparr> ver = ''1'', ick = replicate 32 1, ink = replicate 32 2,
     ihk = replicate 32 4, tnk = replicate 32 5, tvk = replicate 32 6, thk = replicate 32 7 \<rparr>"

definition row_a :: row where
  "row_a = \<lparr> row_id = 1, row_type = replicate 12 0 @ [10] @ replicate 16 1,
     row_name = replicate 12 0 @ [11] @ replicate 16 2,
     row_value = Some (replicate 12 0 @ [12] @ replicate 16 20),
     row_key = replicate 12 0 @ replicate 32 20 @ replicate 16 3,
     tags_enc = None, tags_plain = None \<rparr>"

definition row_b_tags_enc :: string where
  "row_b_tags_enc = ''0000000000000000000000001605050505050505050505050505050505:0000000000000000000000001706060606060606060606060606060606''"

definition row_b_tags_plain :: string where
  "row_b_tags_plain = ''0000000000000000000000001805050505050505050505050505050505:31''"

definition row_b :: row where
  "row_b = \<lparr> row_id = 2, row_type = replicate 12 0 @ [13] @ replicate 16 1,
     row_name = replicate 12 0 @ [14] @ replicate 16 2,
     row_value = Some (replicate 12 0 @ [15] @ replicate 16 21),
     row_key = replicate 12 0 @ replicate 32 21 @ replicate 16 3,
     tags_enc = Some row_b_tags_enc, tags_plain = Some row_b_tags_plain \<rparr>"

definition item_a :: item where
  "item_a = \<lparr> item_id = 1, item_type = [10], item_name = [11], item_value = Some [12],
     item_tags = [] \<rparr>"

definition item_b :: item where
  "item_b = \<lparr> item_id = 2, item_type = [13], item_name = [14], item_value = Some [15],
     item_tags = [(0, [22], TVBytes [23]), (1, [24], TVStr ''0'')] \<rparr>"

definition written_a :: "bytes \<Rightarrow> upd_item" where
  "written_a nonce = \<lparr> upd_id = 1, upd_category = replicate 12 4 @ [10] @ replicate 16 1,
     upd_name = replicate 12 4 @ [11] @ replicate 16 2,
     upd_value = nonce @ [12] @ replicate 16 4, upd_tags = [] \<rparr>"

definition written_b :: "bytes \<Rightarrow> upd_item" where
  "written_b nonce = \<lparr> upd_id = 2, upd_category = replicate 12 4 @ [13] @ replicate 16 1,
     upd_name = replicate 12 4 @ [14] @ replicate 16 2,
     upd_value = nonce @ [15] @ replicate 16 4,
     upd_tags = [(0, replicate 12 7 @ [22] @ replicate 16 5,
                     TVBytes (replicate 12 7 @ [23] @ replicate 16 6)),
                 (1, replicate 12 7 @ [24] @ replicate 16 5, TVStr ''0'')] \<rparr>"

definition two_row_wallet :: wallet where
  "two_row_wallet = \<lparr> is_pg = False, pending = [row_a, row_b], written = [], profiles = [] \<rparr>"

definition stopped_wallet :: wallet where
  "stopped_wallet = \<lparr> is_pg = False, pending = [row_b],
     written = [[written_a (replicate 12 1)]], profiles = [] \<rparr>"

definition resumed_wallet :: wallet where
  "resumed_wallet = \<lparr> is_pg = False, pending = [],
     written = [[written_a (replicate 12 1)], [written_b (replicate 12 2)]], profiles = [] \<rparr>"

definition uninterrupted_wallet :: wallet where
  "uninterrupted_wallet = \<lparr> is_pg = False, pending = [],
     written = [[written_a (replicate 12 3)], [written_b (replicate 12 3)]], profiles = [] \<rparr>"

lemma const_nonce: "map (\<lambda>_. c) [0..<12] = replicate 12 c"
  by (simp add: map_replicate_const)

lemma row_a_decrypt: "decrypt_item stub_prims row_a legacy_keys False = Inr item_a"
  by (simp add: decrypt_item_def row_a_def legacy_keys_def item_a_def decrypt_merged_def
      stub_decrypt_def CHACHAPOLY_NONCE_LEN_def)

lemma row_b_tags_enc_decrypt:
  "decrypt_tags stub_prims row_b_tags_enc (replicate 32 5) (Some (replicate 32 6))
     = Inr [([22], TVBytes [23])]"
  by (simp add: decrypt_tags_def row_b_tags_enc_def decrypt_tag_def hex_digit_def
      py_isspace_def decrypt_merged_def stub_decrypt_def truthy_def CHACHAPOLY_NONCE_LEN_def
      replicate_16)

lemma row_b_tags_plain_decrypt:
  "decrypt_tags stub_prims row_b_tags_plain (replicate 32 5) None = Inr [([24], TVStr ''0'')]"
  by (simp add: decrypt_tags_def row_b_tags_plain_def decrypt_tag_def hex_digit_def
      py_isspace_def decrypt_merged_def stub_decrypt_def truthy_def CHACHAPOLY_NONCE_LEN_def
      replicate_16)

lemma row_b_tags_nonempty: "row_b_tags_enc \<noteq> []" "row_b_tags_plain \<noteq> []"
  by (simp_all add: row_b_tags_enc_def row_b_tags_plain_def)

lemma row_b_decrypt: "decrypt_item stub_prims row_b legacy_keys False = Inr item_b"
  by (simp add: decrypt_item_def row_b_def legacy_keys_def item_b_def decrypt_merged_def
      stub_decrypt_def CHACHAPOLY_NONCE_LEN_def row_b_tags_enc_decrypt
      row_b_tags_plain_decrypt row_b_tags_nonempty)

lemma item_a_update:
  "update_item stub_prims item_a rekey_key e
     = Inr (written_a (map e [0..<12]), \<lambda>i. e (i + 12))"
  by (simp add: update_item_def item_a_def rekey_key_def written_a_def encrypt_merged_def
      encrypt_value_def to_bytes4_big_def hmac_new_def hasher_update_def hasher_digest_def
      stub_hmac_def stub_encrypt_def urandom_def CHACHAPOLY_NONCE_LEN_def
      del: upt_rec_numeral)

lemma item_b_update:
  "update_item stub_prims item_b rekey_key e
     = Inr (written_b (map e [0..<12]), \<lambda>i. e (i + 12))"
  by (simp add: update_item_def item_b_def rekey_key_def written_b_def encrypt_merged_def
      encrypt_value_def to_bytes4_big_def hmac_new_def hasher_update_def hasher_digest_def
      stub_hmac_def stub_encrypt_def urandom_def CHACHAPOLY_NONCE_LEN_def
      del: upt_rec_numeral)

lemma rekey_key_lengths: "profile_key_lengths rekey_key"
  by (simp add: profile_key_lengths_def rekey_key_def)

text \<open>
  The stopped wallet with a pending row whose type column does not verify under the
  type key: the next round trip raises.
\<close>

definition corrupt_row :: row where
  "corrupt_row = row_b \<lparr> row_type := replicate 29 0 \<rparr>"

definition corrupt_wallet :: wallet where
  "corrupt_wallet = stopped_wallet \<lparr> pending := [corrupt_row] \<rparr>"

lemma corrupt_row_decrypt:
  "decrypt_item stub_prims corrupt_row legacy_keys False = Inl CryptoError"
  by (simp add: decrypt_item_def corrupt_row_def row_b_def legacy_keys_def decrypt_merged_def
      stub_decrypt_def CHACHAPOLY_NONCE_LEN_def row_b_tags_enc_decrypt
      row_b_tags_plain_decrypt row_b_tags_nonempty replicate_eq_replicate)

lemma two_row_stop:
  "update_items_upto 1 stub_prims legacy_keys rekey_key two_row_wallet (\<lambda>_. 1)
     = (None, stopped_wallet, \<lambda>_. 1)"
  by (simp add: two_row_wallet_def stopped_wallet_def fetch_pending_items_def
      wallet_update_items_def row_a_decrypt item_a_update const_nonce)
    (simp add: row_a_def row_b_def written_a_def)

lemma two_row_resume:
  "update_items stub_prims legacy_keys rekey_key stopped_wallet (\<lambda>_. 2)
     = (None, resumed_wallet, \<lambda>_. 2)"
proof -
  have "update_items stub_prims legacy_keys rekey_key stopped_wallet (\<lambda>_. 2)
          = update_items stub_prims legacy_keys rekey_key resumed_wallet (\<lambda>_. 2)"
    by (subst update_items.simps)
      (simp add: stopped_wallet_def resumed_wallet_def fetch_pending_items_def
        wallet_update_items_def row_b_decrypt item_b_update const_nonce,
       simp add: row_b_def written_b_def)
  also have "\<dots> = (None, resumed_wallet, \<lambda>_. 2)"
    by (subst update_items.simps) (simp add: resumed_wallet_def fetch_pending_items_def)
  finally show ?thesis .
qed

lemma two_row_uninterrupted:
  "update_items stub_prims legacy_keys rekey_key two_row_wallet (\<lambda>_. 3)
     = (None, uninterrupted_wallet, \<lambda>_. 3)"
proof -
  define mid where "mid = \<lparr> is_pg = False, pending = [row_b],
     written = [[written_a (replicate 12 3)]], profiles = [] \<rparr>"
  have "update_items stub_prims legacy_keys rekey_key two_row_wallet (\<lambda>_. 3)
          = update_items stub_prims legacy_keys rekey_key mid (\<lambda>_. 3)"
    by (subst update_items.simps)
      (simp add: two_row_wallet_def mid_def fetch_pending_items_def
        wallet_update_items_def row_a_decrypt item_a_update const_nonce,
       simp add: row_a_def row_b_def written_a_def)
  also have "\<dots> = update_items stub_prims legacy_keys rekey_key uninterrupted_wallet (\<lambda>_. 3)"
    by (subst update_items.simps)
      (simp add: mid_def uninterrupted_wallet_def fetch_pending_items_def
        wallet_update_items_def row_b_decrypt item_b_update const_nonce,
       simp add: row_b_def written_b_def)
  also have "\<dots> = (None, uninterrupted_wallet, \<lambda>_. 3)"
    by (subst update_items.simps) (simp add: uninterrupted_wallet_def fetch_pending_items_def)
  finally show ?thesis .
qed

theorem update_items_resumable_witness:
  "aead_contract stub_prims \<and> hmac_contract stub_prims \<and> profile_key_lengths rekey_key
   \<and> ihk rekey_key \<noteq> [] \<and> thk rekey_key \<noteq> []
   \<and> distinct (map row_id (pending two_row_wallet))
   \<and> fetch_pending_items 1 two_row_wallet = [row_a]
   \<and> decrypt_item stub_prims row_a legacy_keys (is_pg two_row_wallet) = Inr item_a
   \<and> update_item stub_prims item_a rekey_key (\<lambda>_. 1)
       = Inr (written_a (replicate 12 1), \<lambda>_. 1)
   \<and> read_back stub_prims rekey_key (written_a (replicate 12 1)) = Inr item_a
   \<and> update_items_upto 1 stub_prims legacy_keys rekey_key two_row_wallet (\<lambda>_. 1)
       = (None, stopped_wallet, \<lambda>_. 1)
   \<and> pending stopped_wallet = [row_b]
   \<and> written stopped_wallet = [[written_a (replicate 12 1)]]
   \<and> update_items stub_prims legacy_keys rekey_key stopped_wallet (\<lambda>_. 1)
       = update_items stub_prims legacy_keys rekey_key two_row_wallet (\<lambda>_. 1)
   \<and> update_items stub_prims legacy_keys rekey_key stopped_wallet (\<lambda>_. 2)
       = (None, resumed_wallet, \<lambda>_. 2)
   \<and> written resumed_wallet = [[written_a (replicate 12 1)], [written_b (replicate 12 2)]]
   \<and> update_items stub_prims legacy_keys rekey_key two_row_wallet (\<lambda>_. 3)
       = (None, uninterrupted_wallet, \<lambda>_. 3)
   \<and> written uninterrupted_wallet
       = [[written_a (replicate 12 3)], [written_b (replicate 12 3)]]
   \<and> written resumed_wallet \<noteq> written uninterrupted_wallet
   \<and> migrated_content stub_prims rekey_key resumed_wallet
       = migrated_content stub_prims rekey_key uninterrupted_wallet
   \<and> migrated_content stub_prims rekey_key resumed_wallet = [[Inr item_a], [Inr item_b]]
   \<and> map (map nonce_free_fields) (written resumed_wallet)
       = map (map nonce_free_fields) (written uninterrupted_wallet)
   \<and> map (map upd_id) (written resumed_wallet) = [[1], [2]]
   \<and> fully_migrated stub_prims legacy_keys rekey_key two_row_wallet resumed_wallet
   \<and> fetch_pending_items 1 resumed_wallet = []
   \<and> update_items stub_prims legacy_keys rekey_key resumed_wallet (\<lambda>_. 9)
       = (None, resumed_wallet, \<lambda>_. 9)
   \<and> fetch_pending_items 1 corrupt_wallet \<noteq> []
   \<and> update_rows stub_prims legacy_keys rekey_key (is_pg corrupt_wallet)
        (fetch_pending_items 1 corrupt_wallet) (\<lambda>_. 2) = Inl CryptoError
   \<and> update_items stub_prims legacy_keys rekey_key corrupt_wallet (\<lambda>_. 2)
       = (Some CryptoError, corrupt_wallet, \<lambda>_. 2)
   \<and> written corrupt_wallet = [[written_a (replicate 12 1)]]"
proof -
  note c = stub_aead_contract stub_hmac_contract rekey_key_lengths
  have h: "ihk rekey_key \<noteq> []" "thk rekey_key \<noteq> []"
    by (simp_all add: rekey_key_def)
  have d: "distinct (map row_id (pending two_row_wallet))"
    by (simp add: two_row_wallet_def row_a_def row_b_def)
  have f: "fetch_pending_items 1 two_row_wallet = [row_a]"
    by (simp add: fetch_pending_items_def two_row_wallet_def)
  have pg: "is_pg two_row_wallet = False"
    by (simp add: two_row_wallet_def)
  have da: "decrypt_item stub_prims row_a legacy_keys (is_pg two_row_wallet) = Inr item_a"
    by (simp add: pg row_a_decrypt)
  have ua: "update_item stub_prims item_a rekey_key (\<lambda>_. 1)
              = Inr (written_a (replicate 12 1), \<lambda>_. 1)"
    by (simp add: item_a_update const_nonce del: upt_rec_numeral)
  have ws: "pending stopped_wallet = [row_b]"
    "written stopped_wallet = [[written_a (replicate 12 1)]]"
    by (simp_all add: stopped_wallet_def)
  have wr: "written resumed_wallet
              = [[written_a (replicate 12 1)], [written_b (replicate 12 2)]]"
    by (simp add: resumed_wallet_def)
  have wu: "written uninterrupted_wallet
              = [[written_a (replicate 12 3)], [written_b (replicate 12 3)]]"
    by (simp add: uninterrupted_wallet_def)
  have ne: "written resumed_wallet \<noteq> written uninterrupted_wallet"
    by (simp add: wr wu written_a_def replicate_eq_replicate)
  have rows: "map (\<lambda>r. [decrypt_item stub_prims r legacy_keys (is_pg two_row_wallet)])
                (pending two_row_wallet) = [[Inr item_a], [Inr item_b]]"
    by (simp add: two_row_wallet_def row_a_decrypt row_b_decrypt)
  have ids: "map (\<lambda>r. [row_id r]) (pending two_row_wallet) = [[1], [2]]"
    by (simp add: two_row_wallet_def row_a_def row_b_def)
  have empty: "migrated_content stub_prims rekey_key two_row_wallet = []"
    "map (map upd_id) (written two_row_wallet) = []"
    by (simp_all add: migrated_content_def two_row_wallet_def)
  note inst = update_items_resumable [where P = stub_prims and ik = legacy_keys
      and pk = rekey_key and w = two_row_wallet and r = row_a and it = item_a
      and u = "written_a (replicate 12 1)" and ?e1.0 = "\<lambda>_. 1" and e = "\<lambda>_. 1"
      and n = 1 and ?w1.0 = stopped_wallet and ?e3.0 = "\<lambda>_. 1" and ?e4.0 = "\<lambda>_. 2"
      and ?w2.0 = resumed_wallet and ?e5.0 = "\<lambda>_. 2" and ?e6.0 = "\<lambda>_. 3"]
  from inst c da ua
  have rb: "read_back stub_prims rekey_key (written_a (replicate 12 1)) = Inr item_a"
    by blast
  from inst two_row_stop
  have same: "update_items stub_prims legacy_keys rekey_key stopped_wallet (\<lambda>_. 1)
       = update_items stub_prims legacy_keys rekey_key two_row_wallet (\<lambda>_. 1)"
    by blast
  from inst d two_row_stop two_row_resume
  have fm: "fully_migrated stub_prims legacy_keys rekey_key two_row_wallet resumed_wallet"
    by blast
  from inst c d two_row_stop two_row_resume
  have ex: "\<exists>w3 e7. update_items stub_prims legacy_keys rekey_key two_row_wallet (\<lambda>_. 3)
               = (None, w3, e7)
             \<and> migrated_content stub_prims rekey_key resumed_wallet
                 = migrated_content stub_prims rekey_key w3
             \<and> map (map upd_id) (written resumed_wallet) = map (map upd_id) (written w3)
             \<and> pending resumed_wallet = pending w3 \<and> profiles resumed_wallet = profiles w3
             \<and> is_pg resumed_wallet = is_pg w3
             \<and> (ihk rekey_key \<noteq> [] \<and> thk rekey_key \<noteq> [] \<longrightarrow>
                  map (map nonce_free_fields) (written resumed_wallet)
                    = map (map nonce_free_fields) (written w3))"
    and content: "migrated_content stub_prims rekey_key resumed_wallet
            = migrated_content stub_prims rekey_key two_row_wallet
              @ map (\<lambda>r. [decrypt_item stub_prims r legacy_keys (is_pg two_row_wallet)])
                  (pending two_row_wallet)"
    by blast+
  from ex two_row_uninterrupted h
  have eq: "migrated_content stub_prims rekey_key resumed_wallet
              = migrated_content stub_prims rekey_key uninterrupted_wallet"
    and nf: "map (map nonce_free_fields) (written resumed_wallet)
              = map (map nonce_free_fields) (written uninterrupted_wallet)"
    by auto
  from content rows empty
  have explicit: "migrated_content stub_prims rekey_key resumed_wallet
                    = [[Inr item_a], [Inr item_b]]"
    by simp
  note inst2 = update_items_resumable [where P = stub_prims and ik = legacy_keys
      and pk = rekey_key and w = stopped_wallet and e = "\<lambda>_. 2" and w' = resumed_wallet
      and e' = "\<lambda>_. 2" and ?e2.0 = "\<lambda>_. 9"]
  from inst2 two_row_resume
  have nomore: "fetch_pending_items 1 resumed_wallet = []"
    and rerun: "update_items stub_prims legacy_keys rekey_key resumed_wallet (\<lambda>_. 9)
            = (None, resumed_wallet, \<lambda>_. 9)"
    by blast+
  have idl: "map (map upd_id) (written resumed_wallet) = [[1], [2]]"
    by (simp add: wr written_a_def written_b_def)
  have cf: "fetch_pending_items 1 corrupt_wallet \<noteq> []"
    by (simp add: corrupt_wallet_def fetch_pending_items_def)
  have cr: "update_rows stub_prims legacy_keys rekey_key (is_pg corrupt_wallet)
        (fetch_pending_items 1 corrupt_wallet) (\<lambda>_. 2) = Inl CryptoError"
    by (simp add: corrupt_wallet_def stopped_wallet_def fetch_pending_items_def
        corrupt_row_decrypt)
  have cw: "written corrupt_wallet = [[written_a (replicate 12 1)]]"
    by (simp add: corrupt_wallet_def stopped_wallet_def)
  from update_items_resumable [where P = stub_prims and ik = legacy_keys
      and pk = rekey_key and w = corrupt_wallet and e = "\<lambda>_. 2" and err = CryptoError]
    cf cr
  have raised: "update_items stub_prims legacy_keys rekey_key corrupt_wallet (\<lambda>_. 2)
       = (Some CryptoError, corrupt_wallet, \<lambda>_. 2)"
    by blast
  from c h d f da ua rb two_row_stop ws same two_row_resume wr two_row_uninterrupted wu ne eq
    explicit nf idl fm nomore rerun cf cr raised cw
  show ?thesis by (intro conjI) assumption+
qed

section \<open>Credential tags\<close>

subsection \<open>The identifier patterns\<close>

text \<open>
  \<^verbatim>\<open>_credential_tags\<close> matches the schema identifier against
  \<^verbatim>\<open>^(\w+):2:([^:]+):([^:]+)$\<close> and the credential definition identifier against
  \<^verbatim>\<open>^(\w+):3:CL:([^:]+):([^:]+)$\<close>. A character of a \<open>string\<close> is a code point
  below 256; \<open>is_word_char\<close> is the class \<^verbatim>\<open>\w\<close> of Python's \<^verbatim>\<open>re\<close> on that
  range: the ASCII letters and digits, the underscore, and the Latin-1 letters and
  numeric characters. \<open>match_id marker s\<close> runs the pattern with
  the literal \<open>marker\<close> (\<^verbatim>\<open>:2:\<close> or \<^verbatim>\<open>:3:CL:\<close>) between the first and the second
  group, the way the regular expression engine does: each group takes the longest run
  of its character class (no shorter run can be followed by what the pattern wants
  next), and \<^verbatim>\<open>$\<close> is reached exactly when the last group runs to the end of the
  string. The result is the three groups, or \<open>None\<close> when there is no match.
\<close>

definition is_word_char :: "char \<Rightarrow> bool" where
  "is_word_char c \<longleftrightarrow>
     (let n = (of_char c :: nat) in
      (48 \<le> n \<and> n \<le> 57) \<or> (65 \<le> n \<and> n \<le> 90) \<or> (97 \<le> n \<and> n \<le> 122) \<or> n = 95
      \<or> n = 170 \<or> n = 178 \<or> n = 179 \<or> n = 181 \<or> n = 185 \<or> n = 186
      \<or> (188 \<le> n \<and> n \<le> 190) \<or> (192 \<le> n \<and> n \<le> 214)
      \<or> (216 \<le> n \<and> n \<le> 246) \<or> (248 \<le> n \<and> n \<le> 255))"

definition not_colon :: "char \<Rightarrow> bool" where
  "not_colon c \<longleftrightarrow> c \<noteq> CHR '':''"

definition match_id :: "string \<Rightarrow> string \<Rightarrow> (string \<times> string \<times> string) option" where
  "match_id marker s =
     (let g1 = takeWhile is_word_char s; r1 = dropWhile is_word_char s in
      if g1 = [] \<or> take (length marker) r1 \<noteq> marker then None
      else
        (let r2 = drop (length marker) r1;
             g2 = takeWhile not_colon r2; r3 = dropWhile not_colon r2 in
         if g2 = [] then None
         else case r3 of
                [] \<Rightarrow> None
              | c # r4 \<Rightarrow>
                 (let g3 = takeWhile not_colon r4; r5 = dropWhile not_colon r4 in
                  if g3 = [] \<or> r5 \<noteq> [] then None
                  else Some (g1, g2, g3))))"

text \<open>
  The pattern in the words of the specification, \<^verbatim>\<open><issuerDid>marker<a>:<b>\<close>: the
  identifier is a non-empty run of word characters, the marker, and two non-empty parts
  without a colon, separated by a colon.
\<close>

definition has_id_pattern :: "string \<Rightarrow> string \<Rightarrow> string \<Rightarrow> string \<Rightarrow> string \<Rightarrow> bool" where
  "has_id_pattern marker s did a b \<longleftrightarrow>
     s = did @ marker @ a @ '':'' @ b
     \<and> did \<noteq> [] \<and> list_all is_word_char did
     \<and> a \<noteq> [] \<and> list_all not_colon a
     \<and> b \<noteq> [] \<and> list_all not_colon b"

lemma dropWhile_not_colon_head:
  "dropWhile not_colon xs = c # ys \<Longrightarrow> c = CHR '':''"
  using hd_dropWhile [of not_colon xs] by (auto simp: not_colon_def)

lemma match_id_sound:
  assumes "match_id marker s = Some (did, a, b)"
  shows "has_id_pattern marker s did a b"
proof -
  define r1 where "r1 = dropWhile is_word_char s"
  define r2 where "r2 = drop (length marker) r1"
  define r3 where "r3 = dropWhile not_colon r2"
  from assms obtain c r4 where
    did: "did = takeWhile is_word_char s" "did \<noteq> []" and
    mk: "take (length marker) r1 = marker" and
    a: "a = takeWhile not_colon r2" "a \<noteq> []" and
    r3: "r3 = c # r4" and
    b: "b = takeWhile not_colon r4" "b \<noteq> []" and
    r5: "dropWhile not_colon r4 = []"
    unfolding match_id_def r1_def r2_def r3_def
    by (auto simp: Let_def split: if_splits list.splits)
  from r3 have c: "c = CHR '':''"
    unfolding r3_def by (rule dropWhile_not_colon_head)
  from r5 have "takeWhile not_colon r4 = r4"
    by (metis append_Nil2 takeWhile_dropWhile_id)
  with b have r4: "r4 = b" by simp
  have "s = did @ r1" by (simp add: did r1_def)
  also have "r1 = marker @ r2"
    using mk unfolding r2_def by (metis append_take_drop_id)
  also have "r2 = a @ r3" by (simp add: a r3_def)
  finally have "s = did @ marker @ a @ '':'' @ b"
    using r3 c r4 by simp
  moreover have "list_all is_word_char did"
    unfolding did list_all_iff by (auto dest: set_takeWhileD)
  moreover have "list_all not_colon a"
    unfolding a list_all_iff by (auto dest: set_takeWhileD)
  moreover have "list_all not_colon b"
    unfolding b list_all_iff by (auto dest: set_takeWhileD)
  ultimately show ?thesis
    using did(2) a(2) b(2) by (simp add: has_id_pattern_def)
qed

lemma takeWhile_all: "list_all P xs \<Longrightarrow> \<not> P y \<Longrightarrow> takeWhile P (xs @ y # ys) = xs"
  by (induction xs) auto

lemma dropWhile_all: "list_all P xs \<Longrightarrow> \<not> P y \<Longrightarrow> dropWhile P (xs @ y # ys) = y # ys"
  by (induction xs) auto

lemma takeWhile_whole: "list_all P xs \<Longrightarrow> takeWhile P xs = xs"
  by (induction xs) auto

lemma dropWhile_whole: "list_all P xs \<Longrightarrow> dropWhile P xs = []"
  by (induction xs) auto

lemma match_id_complete:
  assumes "has_id_pattern (m # ms) s did a b" and "\<not> is_word_char m"
  shows "match_id (m # ms) s = Some (did, a, b)"
proof -
  from assms(1) have s: "s = did @ m # (ms @ a @ CHR '':'' # b)"
    and did: "did \<noteq> []" "list_all is_word_char did"
    and a: "a \<noteq> []" "list_all not_colon a"
    and b: "b \<noteq> []" "list_all not_colon b"
    by (simp_all add: has_id_pattern_def)
  have g1: "takeWhile is_word_char s = did"
    unfolding s using did(2) assms(2) by (rule takeWhile_all)
  have r1: "dropWhile is_word_char s = m # (ms @ a @ CHR '':'' # b)"
    unfolding s using did(2) assms(2) by (rule dropWhile_all)
  have nc: "\<not> not_colon CHR '':''" by (simp add: not_colon_def)
  have g2: "takeWhile not_colon (a @ CHR '':'' # b) = a"
    using a(2) nc by (rule takeWhile_all)
  have r3: "dropWhile not_colon (a @ CHR '':'' # b) = CHR '':'' # b"
    using a(2) nc by (rule dropWhile_all)
  have g3: "takeWhile not_colon b = b"
    using b(2) by (rule takeWhile_whole)
  have r5: "dropWhile not_colon b = []"
    using b(2) by (rule dropWhile_whole)
  have "match_id (m # ms) s =
          (if takeWhile not_colon b = [] \<or> dropWhile not_colon b \<noteq> [] then None
           else Some (did, a, takeWhile not_colon b))"
    unfolding match_id_def Let_def
    by (simp add: g1 r1 g2 r3 did(1) a(1)
        del: takeWhile_eq_all_conv dropWhile_eq_Nil_conv)
  then show ?thesis
    unfolding g3 r5 using b(1) by simp
qed


subsection \<open>Tag derivation\<close>

text \<open>
  The credential as \<^verbatim>\<open>_credential_tags\<close> reads it: the dictionary \<^verbatim>\<open>cred_data\<close>
  with its keys \<^verbatim>\<open>schema_id\<close>, \<^verbatim>\<open>cred_def_id\<close>, \<^verbatim>\<open>rev_reg_id\<close> (absent or
  \<^verbatim>\<open>null\<close> is \<open>None\<close>) and \<^verbatim>\<open>values\<close>, the attributes in the dictionary's
  order, each with its \<^verbatim>\<open>raw\<close> and \<^verbatim>\<open>encoded\<close> value. The record is a well-formed
  credential: the keys are present and the identifiers and raw values are strings (on
  anything else the source raises \<^verbatim>\<open>KeyError\<close> or \<^verbatim>\<open>TypeError\<close> before it builds
  a tag).
\<close>

record attr_value =
  raw :: string
  encoded :: string

record cred_data =
  schema_id :: string
  cred_def_id :: string
  rev_reg_id :: "string option"
  cred_values :: "(string \<times> attr_value) list"

text \<open>
  \<^verbatim>\<open>k.replace(" ", "")\<close> and the tag name \<^verbatim>\<open>f"attr::{attr_name}::value"\<close>.
\<close>

definition strip_spaces :: "string \<Rightarrow> string" where
  "strip_spaces k = filter (\<lambda>c. c \<noteq> CHR '' '') k"

definition attr_tag_name :: "string \<Rightarrow> string" where
  "attr_tag_name k = ''attr::'' @ strip_spaces k @ ''::value''"


text \<open>
  \<^verbatim>\<open>Strategy._credential_tags(cred_data)\<close>. The tags are a Python dictionary: an
  association list in insertion order, where an assignment to a key that is present
  replaces its value (\<open>AList.update\<close>). \<^verbatim>\<open>cred_data.get("rev_reg_id") or "None"\<close> is
  \<^verbatim>\<open>"None"\<close> also for the empty string.
\<close>

definition credential_tags :: "cred_data \<Rightarrow> error + (string \<times> string) list" where
  "credential_tags cd =
     (case match_id '':2:'' (schema_id cd) of
        None \<Rightarrow> Inl (UpgradeError (''Error parsing credential schema ID: '' @ schema_id cd))
      | Some (schema_did, schema_name, schema_version) \<Rightarrow>
     (case match_id '':3:CL:'' (cred_def_id cd) of
        None \<Rightarrow>
          Inl (UpgradeError (''Error parsing credential definition ID: '' @ cred_def_id cd))
      | Some (cdef_did, cdef_seq_no, cdef_tag) \<Rightarrow>
          Inr (fold (\<lambda>(k, av) tags. AList.update (attr_tag_name k) (raw av) tags)
                 (cred_values cd)
                 [(''schema_id'', schema_id cd),
                  (''schema_issuer_did'', schema_did),
                  (''schema_name'', schema_name),
                  (''schema_version'', schema_version),
                  (''issuer_did'', cdef_did),
                  (''cred_def_id'', cred_def_id cd),
                  (''rev_reg_id'',
                     case rev_reg_id cd of
                       None \<Rightarrow> ''None''
                     | Some rid \<Rightarrow> if rid = [] then ''None'' else rid)])))"

lemma update_fresh: "k \<notin> fst ` set al \<Longrightarrow> AList.update k v al = al @ [(k, v)]"
  by (induction al) auto

lemma fold_update_fresh:
  assumes "distinct (map (\<lambda>(k, av). f k) vals)"
    and "\<forall>(k, av) \<in> set vals. f k \<notin> fst ` set al"
  shows "fold (\<lambda>(k, av) tags. AList.update (f k) (g av) tags) vals al
           = al @ map (\<lambda>(k, av). (f k, g av)) vals"
  using assms
proof (induction vals arbitrary: al)
  case Nil
  then show ?case by simp
next
  case (Cons p vals)
  obtain k av where p: "p = (k, av)" by (cases p)
  from Cons.prems p have fresh: "f k \<notin> fst ` set al" by simp
  have d: "distinct (map (\<lambda>(k, av). f k) vals)"
    using Cons.prems(1) by simp
  have "\<forall>(k', av') \<in> set vals. f k' \<notin> fst ` set (al @ [(f k, g av)])"
    using Cons.prems p by (auto simp: image_iff)
  from Cons.IH [OF d this] fresh p show ?case
    by (simp add: update_fresh)
qed

definition fixed_tag_names :: "string list" where
  "fixed_tag_names = [''schema_id'', ''schema_issuer_did'', ''schema_name'',
     ''schema_version'', ''issuer_did'', ''cred_def_id'', ''rev_reg_id'']"

lemma attr_tag_name_not_fixed: "attr_tag_name k \<notin> set fixed_tag_names"
  by (simp add: attr_tag_name_def fixed_tag_names_def)

lemma fold_update_keys:
  "fst ` set (fold (\<lambda>(k, av) tags. AList.update (f k) (g av) tags) vals al)
     = fst ` set al \<union> f ` fst ` set vals"
proof (induction vals arbitrary: al)
  case Nil
  then show ?case by simp
next
  case (Cons p vals)
  obtain k av where p: "p = (k, av)" by (cases p)
  show ?case
    by (auto simp: p Cons.IH AList.dom_update)
qed

lemma fold_update_other:
  assumes "x \<notin> f ` fst ` set vals"
  shows "map_of (fold (\<lambda>(k, av) tags. AList.update (f k) (g av) tags) vals al) x = map_of al x"
  using assms
proof (induction vals arbitrary: al)
  case Nil
  then show ?case by simp
next
  case (Cons p vals)
  obtain k av where p: "p = (k, av)" by (cases p)
  from Cons.prems p have "x \<noteq> f k" and "x \<notin> f ` fst ` set vals" by auto
  then show ?case
    by (simp add: p Cons.IH AList.update_conv')
qed


lemma attr_tag_names_distinct:
  assumes "distinct (map (\<lambda>(k, av). strip_spaces k) vals)"
  shows "distinct (map (\<lambda>(k, av). attr_tag_name k) vals)"
proof -
  have "map (\<lambda>(k, av). attr_tag_name k) vals
          = map (\<lambda>x. ''attr::'' @ x @ ''::value'') (map (\<lambda>(k, av). strip_spaces k) vals)"
    by (simp add: attr_tag_name_def split_def)
  moreover have "inj (\<lambda>x :: string. ''attr::'' @ x @ ''::value'')"
    by (rule injI) simp
  then have "inj_on (\<lambda>x :: string. ''attr::'' @ x @ ''::value'')
               (set (map (\<lambda>(k, av). strip_spaces k) vals))"
    by (rule inj_on_subset) simp
  ultimately show ?thesis
    using assms by (simp only: distinct_map)
qed

text \<open>
  Claim C6, amended. For every credential whose schema identifier has the form
  \<^verbatim>\<open><issuerDid>:2:<name>:<version>\<close> and whose credential definition identifier has
  the form \<^verbatim>\<open><issuerDid>:3:CL:<schemaSeqNo>:<tag>\<close>, tag derivation succeeds; the keys of
  the tag map are exactly the seven fixed names and \<^verbatim>\<open>attr::<name>::value\<close> for the
  attribute names with their spaces removed; the fixed names hold the schema identifier,
  its three parts, the DID part of the credential definition identifier, that
  identifier, and the revocation registry identifier or the string \<^verbatim>\<open>None\<close>. When
  the attribute names are still distinct after their spaces are removed, the map has one
  entry per attribute, in order, holding that attribute's raw value.
\<close>

theorem credential_tags_derived:
  assumes "has_id_pattern '':2:'' (schema_id cd) sdid sname sver"
    and "has_id_pattern '':3:CL:'' (cred_def_id cd) cdid cseq ctag"
  shows "\<exists>tags. credential_tags cd = Inr tags
     \<and> fst ` set tags = set fixed_tag_names \<union> attr_tag_name ` fst ` set (cred_values cd)
     \<and> map_of tags ''schema_id'' = Some (schema_id cd)
     \<and> map_of tags ''schema_issuer_did'' = Some sdid
     \<and> map_of tags ''schema_name'' = Some sname
     \<and> map_of tags ''schema_version'' = Some sver
     \<and> map_of tags ''issuer_did'' = Some cdid
     \<and> map_of tags ''cred_def_id'' = Some (cred_def_id cd)
     \<and> map_of tags ''rev_reg_id''
          = Some (case rev_reg_id cd of
                    None \<Rightarrow> ''None''
                  | Some rid \<Rightarrow> if rid = [] then ''None'' else rid)
     \<and> (distinct (map (\<lambda>(k, av). strip_spaces k) (cred_values cd)) \<longrightarrow>
          tags = [(''schema_id'', schema_id cd), (''schema_issuer_did'', sdid),
                  (''schema_name'', sname), (''schema_version'', sver),
                  (''issuer_did'', cdid), (''cred_def_id'', cred_def_id cd),
                  (''rev_reg_id'',
                     case rev_reg_id cd of
                       None \<Rightarrow> ''None''
                     | Some rid \<Rightarrow> if rid = [] then ''None'' else rid)]
                 @ map (\<lambda>(k, av). (attr_tag_name k, raw av)) (cred_values cd))"
proof -
  define fixed where "fixed = [(''schema_id'', schema_id cd), (''schema_issuer_did'', sdid),
                  (''schema_name'', sname), (''schema_version'', sver),
                  (''issuer_did'', cdid), (''cred_def_id'', cred_def_id cd),
                  (''rev_reg_id'',
                     case rev_reg_id cd of
                       None \<Rightarrow> ''None''
                     | Some rid \<Rightarrow> if rid = [] then ''None'' else rid)]"
  define tags where
    "tags = fold (\<lambda>(k, av) tags. AList.update (attr_tag_name k) (raw av) tags)
              (cred_values cd) fixed"
  have w: "\<not> is_word_char CHR '':''" by (simp add: is_word_char_def)
  have m1: "match_id '':2:'' (schema_id cd) = Some (sdid, sname, sver)"
    using assms(1) w by (rule match_id_complete)
  have m2: "match_id '':3:CL:'' (cred_def_id cd) = Some (cdid, cseq, ctag)"
    using assms(2) w by (rule match_id_complete)
  have res: "credential_tags cd = Inr tags"
    by (simp add: credential_tags_def m1 m2 tags_def fixed_def)
  have fk: "fst ` set fixed = set fixed_tag_names"
    by (simp add: fixed_def fixed_tag_names_def)
  have keys: "fst ` set tags = set fixed_tag_names \<union> attr_tag_name ` fst ` set (cred_values cd)"
    unfolding tags_def fold_update_keys fk ..
  have other: "map_of tags x = map_of fixed x" if "x \<in> set fixed_tag_names" for x
  proof -
    from that have "x \<notin> attr_tag_name ` fst ` set (cred_values cd)"
      using attr_tag_name_not_fixed by auto
    then show ?thesis unfolding tags_def by (rule fold_update_other)
  qed
  have exact: "tags = fixed @ map (\<lambda>(k, av). (attr_tag_name k, raw av)) (cred_values cd)"
    if "distinct (map (\<lambda>(k, av). strip_spaces k) (cred_values cd))"
  proof -
    from that have "distinct (map (\<lambda>(k, av). attr_tag_name k) (cred_values cd))"
      by (rule attr_tag_names_distinct)
    moreover have "\<forall>(k, av) \<in> set (cred_values cd). attr_tag_name k \<notin> fst ` set fixed"
      unfolding fk using attr_tag_name_not_fixed by auto
    ultimately show ?thesis unfolding tags_def by (rule fold_update_fresh)
  qed
  have "map_of tags ''schema_id'' = Some (schema_id cd)"
    "map_of tags ''schema_issuer_did'' = Some sdid"
    "map_of tags ''schema_name'' = Some sname"
    "map_of tags ''schema_version'' = Some sver"
    "map_of tags ''issuer_did'' = Some cdid"
    "map_of tags ''cred_def_id'' = Some (cred_def_id cd)"
    "map_of tags ''rev_reg_id''
          = Some (case rev_reg_id cd of
                    None \<Rightarrow> ''None''
                  | Some rid \<Rightarrow> if rid = [] then ''None'' else rid)"
    by (simp_all add: other fixed_tag_names_def) (simp_all add: fixed_def)
  with res keys exact show ?thesis
    unfolding fixed_def by blast
qed

definition example_cred :: cred_data where
  "example_cred = \<lparr> schema_id = ''Th7MpTaRZVRYnPiabds81Y:2:gvt:1.0'',
     cred_def_id = ''Th7MpTaRZVRYnPiabds81Y:3:CL:12:tag'', rev_reg_id = None,
     cred_values = [(''first name'', \<lparr> raw = ''Alice'', encoded = ''1139481716457488690172217916278103335'' \<rparr>),
                    (''age'', \<lparr> raw = ''28'', encoded = ''28'' \<rparr>)] \<rparr>"

theorem credential_tags_derived_witness:
  "has_id_pattern '':2:'' (schema_id example_cred) ''Th7MpTaRZVRYnPiabds81Y'' ''gvt'' ''1.0''
   \<and> has_id_pattern '':3:CL:'' (cred_def_id example_cred) ''Th7MpTaRZVRYnPiabds81Y'' ''12'' ''tag''
   \<and> distinct (map (\<lambda>(k, av). strip_spaces k) (cred_values example_cred))
   \<and> credential_tags example_cred =
       Inr [(''schema_id'', ''Th7MpTaRZVRYnPiabds81Y:2:gvt:1.0''),
            (''schema_issuer_did'', ''Th7MpTaRZVRYnPiabds81Y''),
            (''schema_name'', ''gvt''), (''schema_version'', ''1.0''),
            (''issuer_did'', ''Th7MpTaRZVRYnPiabds81Y''),
            (''cred_def_id'', ''Th7MpTaRZVRYnPiabds81Y:3:CL:12:tag''),
            (''rev_reg_id'', ''None''),
            (''attr::firstname::value'', ''Alice''), (''attr::age::value'', ''28'')]"
proof -
  have p1: "has_id_pattern '':2:'' (schema_id example_cred)
              ''Th7MpTaRZVRYnPiabds81Y'' ''gvt'' ''1.0''"
    by (simp add: has_id_pattern_def example_cred_def is_word_char_def not_colon_def)
  have p2: "has_id_pattern '':3:CL:'' (cred_def_id example_cred)
              ''Th7MpTaRZVRYnPiabds81Y'' ''12'' ''tag''"
    by (simp add: has_id_pattern_def example_cred_def is_word_char_def not_colon_def)
  have d: "distinct (map (\<lambda>(k, av). strip_spaces k) (cred_values example_cred))"
    by (simp add: example_cred_def strip_spaces_def)
  from credential_tags_derived [OF p1 p2] d obtain tags where
    "credential_tags example_cred = Inr tags"
    "tags = [(''schema_id'', schema_id example_cred),
             (''schema_issuer_did'', ''Th7MpTaRZVRYnPiabds81Y''),
             (''schema_name'', ''gvt''), (''schema_version'', ''1.0''),
             (''issuer_did'', ''Th7MpTaRZVRYnPiabds81Y''),
             (''cred_def_id'', cred_def_id example_cred),
             (''rev_reg_id'',
                case rev_reg_id example_cred of
                  None \<Rightarrow> ''None''
                | Some rid \<Rightarrow> if rid = [] then ''None'' else rid)]
            @ map (\<lambda>(k, av). (attr_tag_name k, raw av)) (cred_values example_cred)"
    by blast
  then have "credential_tags example_cred =
       Inr [(''schema_id'', ''Th7MpTaRZVRYnPiabds81Y:2:gvt:1.0''),
            (''schema_issuer_did'', ''Th7MpTaRZVRYnPiabds81Y''),
            (''schema_name'', ''gvt''), (''schema_version'', ''1.0''),
            (''issuer_did'', ''Th7MpTaRZVRYnPiabds81Y''),
            (''cred_def_id'', ''Th7MpTaRZVRYnPiabds81Y:3:CL:12:tag''),
            (''rev_reg_id'', ''None''),
            (''attr::firstname::value'', ''Alice''), (''attr::age::value'', ''28'')]"
    by (simp add: example_cred_def attr_tag_name_def strip_spaces_def)
  with p1 p2 d show ?thesis by blast
qed

text \<open>
  The claim as stated fails when two attribute names differ only in spaces: the
  credential with the attributes \<^verbatim>\<open>a b\<close> (raw value 1) and \<^verbatim>\<open>ab\<close> (raw value 2) gets
  a single attribute tag, and the raw value 1 is in no tag.
\<close>

theorem credential_tags_collision_counterexample:
  "credential_tags
     \<lparr> schema_id = ''Th7MpTaRZVRYnPiabds81Y:2:gvt:1.0'',
       cred_def_id = ''Th7MpTaRZVRYnPiabds81Y:3:CL:12:tag'', rev_reg_id = None,
       cred_values = [(''a b'', \<lparr> raw = ''1'', encoded = ''1'' \<rparr>),
                      (''ab'', \<lparr> raw = ''2'', encoded = ''2'' \<rparr>)] \<rparr>
   = Inr [(''schema_id'', ''Th7MpTaRZVRYnPiabds81Y:2:gvt:1.0''),
          (''schema_issuer_did'', ''Th7MpTaRZVRYnPiabds81Y''),
          (''schema_name'', ''gvt''), (''schema_version'', ''1.0''),
          (''issuer_did'', ''Th7MpTaRZVRYnPiabds81Y''),
          (''cred_def_id'', ''Th7MpTaRZVRYnPiabds81Y:3:CL:12:tag''),
          (''rev_reg_id'', ''None''),
          (''attr::ab::value'', ''2'')]"
  by (simp add: credential_tags_def match_id_def is_word_char_def not_colon_def
      attr_tag_name_def strip_spaces_def)

section \<open>Structural conversion\<close>

text \<open>
  Modelled from the spec: the target-store collaborator (the Askar store that
  \<^verbatim>\<open>convert_items_to_askar\<close> opens; a library outside the repository). The
  specification gives its transactional interface: \<^verbatim>\<open>fetchAll(category, limit)\<close>,
  \<^verbatim>\<open>remove(category, name)\<close>, \<^verbatim>\<open>insert(category, name, value, tags)\<close> and
  \<^verbatim>\<open>commit()\<close>, and says that the removals and insertions of one batch are atomic
  with the batch's transaction. A store is the list of its entries; a transaction works
  on a copy of the store, which replaces the store at \<^verbatim>\<open>commit\<close> and is dropped when
  an exception leaves the \<^verbatim>\<open>async with\<close> block.
\<close>

record entry =
  entry_category :: string
  entry_name :: string
  entry_value :: bytes
  entry_tags :: "(string \<times> string) list"

type_synonym store = "entry list"

definition fetch_all :: "string \<Rightarrow> nat option \<Rightarrow> store \<Rightarrow> entry list" where
  "fetch_all category limit txn =
     (let rows = filter (\<lambda>x. entry_category x = category) txn in
      case limit of None \<Rightarrow> rows | Some n \<Rightarrow> take n rows)"

definition txn_remove :: "string \<Rightarrow> string \<Rightarrow> store \<Rightarrow> store" where
  "txn_remove category name txn =
     filter (\<lambda>x. \<not> (entry_category x = category \<and> entry_name x = name)) txn"

definition txn_insert ::
  "string \<Rightarrow> string \<Rightarrow> bytes \<Rightarrow> (string \<times> string) list \<Rightarrow> store \<Rightarrow> store" where
  "txn_insert category name val tags txn =
     txn @ [\<lparr> entry_category = category, entry_name = name, entry_value = val,
              entry_tags = tags \<rparr>]"

text \<open>
  The credentials loop of \<^verbatim>\<open>convert_items_to_askar\<close>. \<open>convert_credential_rows\<close>
  is the \<^verbatim>\<open>for row in creds\<close> loop inside one transaction; \<open>value_json\<close> stands
  for the entry's \<^verbatim>\<open>value_json\<close> property (the JSON decoding of the value), a
  parameter. \<open>convert_credentials\<close> is the \<^verbatim>\<open>while True\<close> loop: it returns the
  exception raised, if any, and the store as committed.
\<close>

fun convert_credential_rows ::
  "(bytes \<Rightarrow> error + cred_data) \<Rightarrow> entry list \<Rightarrow> store \<Rightarrow> error + store" where
  "convert_credential_rows value_json [] txn = Inr txn"
| "convert_credential_rows value_json (row # rows) txn =
     (let txn = txn_remove ''Indy::Credential'' (entry_name row) txn in
      case value_json (entry_value row) of
        Inl err \<Rightarrow> Inl err
      | Inr cred_data \<Rightarrow>
         (case credential_tags cred_data of
            Inl err \<Rightarrow> Inl err
          | Inr tags \<Rightarrow>
             convert_credential_rows value_json rows
               (txn_insert ''credential'' (entry_name row) (entry_value row) tags txn)))"

definition is_legacy_credential :: "entry \<Rightarrow> bool" where
  "is_legacy_credential x \<longleftrightarrow> entry_category x = ''Indy::Credential''"

lemma convert_rows_legacy:
  "convert_credential_rows vj rows s = Inr s' \<Longrightarrow>
     filter is_legacy_credential s'
       = filter (\<lambda>x. is_legacy_credential x \<and> entry_name x \<notin> set (map entry_name rows)) s"
proof (induction rows arbitrary: s)
  case Nil
  then show ?case by simp
next
  case (Cons row rows)
  from Cons.prems obtain tags where
    rest: "convert_credential_rows vj rows
             (txn_insert ''credential'' (entry_name row) (entry_value row) tags
                (txn_remove ''Indy::Credential'' (entry_name row) s)) = Inr s'"
    by (auto simp: Let_def split: sum.splits)
  have "filter is_legacy_credential s'
          = filter (\<lambda>x. is_legacy_credential x \<and> entry_name x \<notin> set (map entry_name rows))
              (txn_insert ''credential'' (entry_name row) (entry_value row) tags
                (txn_remove ''Indy::Credential'' (entry_name row) s))"
    using rest by (rule Cons.IH)
  also have "\<dots> = filter (\<lambda>x. is_legacy_credential x
                          \<and> entry_name x \<notin> set (map entry_name (row # rows))) s"
    by (auto simp: txn_insert_def txn_remove_def is_legacy_credential_def intro: filter_cong)
  finally show ?case .
qed

lemma convert_rows_shrink:
  assumes "fetch_all ''Indy::Credential'' (Some 50) s \<noteq> []"
    and "convert_credential_rows vj (fetch_all ''Indy::Credential'' (Some 50) s) s = Inr s'"
  shows "length (filter is_legacy_credential s') < length (filter is_legacy_credential s)"
proof -
  define rows where "rows = fetch_all ''Indy::Credential'' (Some 50) s"
  from assms(1) obtain r rest where r: "rows = r # rest"
    unfolding rows_def by (cases "fetch_all ''Indy::Credential'' (Some 50) s") auto
  have "set rows \<subseteq> set (filter is_legacy_credential s)"
    unfolding rows_def fetch_all_def is_legacy_credential_def
    by (auto dest: in_set_takeD)
  with r have rin: "r \<in> set (filter is_legacy_credential s)" by auto
  have "filter is_legacy_credential s'
          = filter (\<lambda>x. entry_name x \<notin> set (map entry_name rows))
              (filter is_legacy_credential s)"
    using convert_rows_legacy [OF assms(2)] unfolding rows_def by (simp add: conj_commute)
  moreover have "\<not> entry_name r \<notin> set (map entry_name rows)"
    using r by simp
  ultimately show ?thesis
    using rin length_filter_less by metis
qed

function convert_credentials ::
  "(bytes \<Rightarrow> error + cred_data) \<Rightarrow> store \<Rightarrow> error option \<times> store" where
  "convert_credentials value_json store =
     (if fetch_all ''Indy::Credential'' (Some 50) store = [] then (None, store)
      else case convert_credential_rows value_json
                  (fetch_all ''Indy::Credential'' (Some 50) store) store of
             Inl err \<Rightarrow> (Some err, store)
           | Inr txn \<Rightarrow> convert_credentials value_json txn)"
  by pat_completeness auto
termination
  by (relation "measure (\<lambda>(vj, s). length (filter is_legacy_credential s))")
    (auto intro: convert_rows_shrink)

declare convert_credentials.simps [simp del]

text \<open>The master-secret loop of \<^verbatim>\<open>convert_items_to_askar\<close>.\<close>

function convert_master_secret :: "store \<Rightarrow> error option \<times> store" where
  "convert_master_secret store =
     (let ms = fetch_all ''Indy::MasterSecret'' None store in
      if ms = [] then (None, store)
      else if length ms > 1
           then (Some (PyException ''Encountered multiple master secrets''), store)
      else
        (let row = ms ! 0;
             txn = txn_remove ''Indy::MasterSecret'' (entry_name row) store;
             txn = txn_insert ''master_secret'' ''default'' (entry_value row) [] txn
         in convert_master_secret txn))"
  by pat_completeness auto


lemma master_secret_after_move:
  assumes "fetch_all ''Indy::MasterSecret'' None s = row # rest"
  shows "fetch_all ''Indy::MasterSecret'' None
           (txn_insert ''master_secret'' ''default'' v []
              (txn_remove ''Indy::MasterSecret'' (entry_name row) s))
         = filter (\<lambda>x. entry_name x \<noteq> entry_name row) rest"
proof -
  have "fetch_all ''Indy::MasterSecret'' None
           (txn_insert ''master_secret'' ''default'' v []
              (txn_remove ''Indy::MasterSecret'' (entry_name row) s))
        = filter (\<lambda>x. entry_name x \<noteq> entry_name row)
            (filter (\<lambda>x. entry_category x = ''Indy::MasterSecret'') s)"
    by (auto simp: fetch_all_def txn_insert_def txn_remove_def intro: filter_cong)
  also have "filter (\<lambda>x. entry_category x = ''Indy::MasterSecret'') s = row # rest"
    using assms by (simp add: fetch_all_def)
  finally show ?thesis by simp
qed

termination convert_master_secret
proof (relation "measure (\<lambda>s. length (fetch_all ''Indy::MasterSecret'' None s))")
  show "wf (measure (\<lambda>s. length (fetch_all ''Indy::MasterSecret'' None s)))" by simp
next
  fix store :: store and x xa xb xc
  assume x: "x = fetch_all ''Indy::MasterSecret'' None store" and ne: "x \<noteq> []"
    and xa: "xa = x ! 0"
    and xb: "xb = txn_remove ''Indy::MasterSecret'' (entry_name xa) store"
    and xc: "xc = txn_insert ''master_secret'' ''default'' (entry_value xa) [] xb"
  from ne obtain row rest where r: "x = row # rest" by (cases x) auto
  with x have f: "fetch_all ''Indy::MasterSecret'' None store = row # rest" by simp
  have "length (fetch_all ''Indy::MasterSecret'' None xc) \<le> length rest"
    unfolding xc xb xa r using master_secret_after_move [OF f] by simp
  then show "(xc, store) \<in> measure (\<lambda>s. length (fetch_all ''Indy::MasterSecret'' None s))"
    using f by simp
qed

declare convert_master_secret.simps [simp del]

text \<open>
  Claim C8. When the fetch of the legacy master-secret category returns more than one
  row, the conversion raises the exception \<^verbatim>\<open>Encountered multiple master secrets\<close>
  and the store is as it was: no row has been removed or inserted. When it returns
  exactly one row, that row is removed and its value inserted under the category
  \<^verbatim>\<open>master_secret\<close>; the next fetch is empty and the loop stops. When the fetch is
  empty the loop stops at once.
\<close>

theorem convert_master_secret_cases:
  "(1 < length (fetch_all ''Indy::MasterSecret'' None s) \<longrightarrow>
      convert_master_secret s
        = (Some (PyException ''Encountered multiple master secrets''), s))
   \<and> (fetch_all ''Indy::MasterSecret'' None s = [row] \<longrightarrow>
        convert_master_secret s
          = (None, txn_insert ''master_secret'' ''default'' (entry_value row) []
                     (txn_remove ''Indy::MasterSecret'' (entry_name row) s))
      \<and> fetch_all ''Indy::MasterSecret'' None
           (txn_insert ''master_secret'' ''default'' (entry_value row) []
              (txn_remove ''Indy::MasterSecret'' (entry_name row) s)) = []
      \<and> fetch_all ''master_secret'' None
           (txn_insert ''master_secret'' ''default'' (entry_value row) []
              (txn_remove ''Indy::MasterSecret'' (entry_name row) s))
         = fetch_all ''master_secret'' None s
           @ [\<lparr> entry_category = ''master_secret'', entry_name = ''default'',
                 entry_value = entry_value row, entry_tags = [] \<rparr>])
   \<and> (fetch_all ''Indy::MasterSecret'' None s = [] \<longrightarrow> convert_master_secret s = (None, s))"
proof (intro conjI impI)
  assume "1 < length (fetch_all ''Indy::MasterSecret'' None s)"
  then show "convert_master_secret s
        = (Some (PyException ''Encountered multiple master secrets''), s)"
    by (auto simp: convert_master_secret.simps [of s] Let_def)
next
  assume one: "fetch_all ''Indy::MasterSecret'' None s = [row]"
  define s2 where "s2 = txn_insert ''master_secret'' ''default'' (entry_value row) []
                     (txn_remove ''Indy::MasterSecret'' (entry_name row) s)"
  from master_secret_after_move [OF one]
  have empty: "fetch_all ''Indy::MasterSecret'' None s2 = []"
    by (simp add: s2_def)
  then have "convert_master_secret s2 = (None, s2)"
    by (simp add: convert_master_secret.simps [of s2])
  with one have "convert_master_secret s = (None, s2)"
    by (simp add: convert_master_secret.simps [of s] Let_def s2_def)
  then show "convert_master_secret s
          = (None, txn_insert ''master_secret'' ''default'' (entry_value row) []
                     (txn_remove ''Indy::MasterSecret'' (entry_name row) s))"
    by (simp add: s2_def)
  from empty show "fetch_all ''Indy::MasterSecret'' None
           (txn_insert ''master_secret'' ''default'' (entry_value row) []
              (txn_remove ''Indy::MasterSecret'' (entry_name row) s)) = []"
    by (simp add: s2_def)
  show "fetch_all ''master_secret'' None
           (txn_insert ''master_secret'' ''default'' (entry_value row) []
              (txn_remove ''Indy::MasterSecret'' (entry_name row) s))
         = fetch_all ''master_secret'' None s
           @ [\<lparr> entry_category = ''master_secret'', entry_name = ''default'',
                 entry_value = entry_value row, entry_tags = [] \<rparr>]"
    by (auto simp: fetch_all_def txn_insert_def txn_remove_def intro: filter_cong)
next
  assume "fetch_all ''Indy::MasterSecret'' None s = []"
  then show "convert_master_secret s = (None, s)"
    by (simp add: convert_master_secret.simps [of s])
qed


definition example_secret :: "string \<Rightarrow> entry" where
  "example_secret name = \<lparr> entry_category = ''Indy::MasterSecret'', entry_name = name,
     entry_value = [1, 2, 3], entry_tags = [] \<rparr>"

theorem convert_master_secret_cases_witness:
  "1 < length (fetch_all ''Indy::MasterSecret'' None [example_secret ''a'', example_secret ''b''])
   \<and> convert_master_secret [example_secret ''a'', example_secret ''b'']
       = (Some (PyException ''Encountered multiple master secrets''),
          [example_secret ''a'', example_secret ''b''])
   \<and> fetch_all ''Indy::MasterSecret'' None [example_secret ''a''] = [example_secret ''a'']
   \<and> convert_master_secret [example_secret ''a'']
       = (None, [\<lparr> entry_category = ''master_secret'', entry_name = ''default'',
                    entry_value = [1, 2, 3], entry_tags = [] \<rparr>])
   \<and> fetch_all ''Indy::MasterSecret'' None [] = []
   \<and> convert_master_secret [] = (None, [])"
proof -
  have two: "1 < length (fetch_all ''Indy::MasterSecret'' None
                           [example_secret ''a'', example_secret ''b''])"
    by (simp add: fetch_all_def example_secret_def)
  have one: "fetch_all ''Indy::MasterSecret'' None [example_secret ''a''] = [example_secret ''a'']"
    by (simp add: fetch_all_def example_secret_def)
  have none: "fetch_all ''Indy::MasterSecret'' None [] = []"
    by (simp add: fetch_all_def)
  from convert_master_secret_cases [of "[example_secret ''a'', example_secret ''b'']"] two
  have "convert_master_secret [example_secret ''a'', example_secret ''b'']
       = (Some (PyException ''Encountered multiple master secrets''),
          [example_secret ''a'', example_secret ''b''])"
    by blast
  moreover from convert_master_secret_cases [of "[example_secret ''a'']" "example_secret ''a''"] one
  have "convert_master_secret [example_secret ''a'']
          = (None, txn_insert ''master_secret'' ''default'' (entry_value (example_secret ''a'')) []
                     (txn_remove ''Indy::MasterSecret'' (entry_name (example_secret ''a''))
                        [example_secret ''a'']))"
    by blast
  then have "convert_master_secret [example_secret ''a'']
       = (None, [\<lparr> entry_category = ''master_secret'', entry_name = ''default'',
                    entry_value = [1, 2, 3], entry_tags = [] \<rparr>])"
    by (simp add: txn_insert_def txn_remove_def example_secret_def)
  moreover from convert_master_secret_cases [of "[]"] none
  have "convert_master_secret [] = (None, [])"
    by blast
  ultimately show ?thesis
    using two one none by blast
qed

lemma convert_rows_raises:
  assumes "r \<in> set rows" and "vj (entry_value r) = Inr cd" and "credential_tags cd = Inl err"
  shows "\<exists>e. convert_credential_rows vj rows s = Inl e"
  using assms(1)
proof (induction rows arbitrary: s)
  case Nil
  then show ?case by simp
next
  case (Cons row rows)
  show ?case
  proof (cases "vj (entry_value row)")
    case (Inl e)
    then show ?thesis by (simp add: Let_def)
  next
    case (Inr cd')
    note parsed = this
    show ?thesis
    proof (cases "credential_tags cd'")
      case (Inl e)
      with parsed show ?thesis by (simp add: Let_def)
    next
      case (Inr tags)
      with parsed assms(2,3) have "r \<noteq> row" by auto
      with Cons.prems have "r \<in> set rows" by simp
      from Cons.IH [OF this] parsed Inr show ?thesis by (simp add: Let_def)
    qed
  qed
qed

lemma convert_rows_keeps:
  "convert_credential_rows vj rows s = Inr s' \<Longrightarrow> x \<in> set s \<Longrightarrow>
     \<not> (is_legacy_credential x \<and> entry_name x \<in> set (map entry_name rows)) \<Longrightarrow> x \<in> set s'"
proof (induction rows arbitrary: s)
  case Nil
  then show ?case by simp
next
  case (Cons row rows)
  from Cons.prems(1) obtain tags where
    rest: "convert_credential_rows vj rows
             (txn_insert ''credential'' (entry_name row) (entry_value row) tags
                (txn_remove ''Indy::Credential'' (entry_name row) s)) = Inr s'"
    by (auto simp: Let_def split: sum.splits)
  from Cons.prems(2,3) have
    "x \<in> set (txn_insert ''credential'' (entry_name row) (entry_value row) tags
                (txn_remove ''Indy::Credential'' (entry_name row) s))"
    by (auto simp: txn_insert_def txn_remove_def is_legacy_credential_def)
  moreover from Cons.prems(3) have
    "\<not> (is_legacy_credential x \<and> entry_name x \<in> set (map entry_name rows))"
    by auto
  ultimately show ?case using rest Cons.IH by blast
qed

lemma convert_rows_no_insert:
  "convert_credential_rows vj rows s = Inr s' \<Longrightarrow> n \<notin> set (map entry_name rows) \<Longrightarrow>
     filter (\<lambda>x. entry_category x = ''credential'' \<and> entry_name x = n) s'
       = filter (\<lambda>x. entry_category x = ''credential'' \<and> entry_name x = n) s"
proof (induction rows arbitrary: s)
  case Nil
  then show ?case by simp
next
  case (Cons row rows)
  from Cons.prems(1) obtain tags where
    rest: "convert_credential_rows vj rows
             (txn_insert ''credential'' (entry_name row) (entry_value row) tags
                (txn_remove ''Indy::Credential'' (entry_name row) s)) = Inr s'"
    by (auto simp: Let_def split: sum.splits)
  from Cons.prems(2) have n: "n \<notin> set (map entry_name rows)" "n \<noteq> entry_name row"
    by auto
  have "filter (\<lambda>x. entry_category x = ''credential'' \<and> entry_name x = n) s'
          = filter (\<lambda>x. entry_category x = ''credential'' \<and> entry_name x = n)
              (txn_insert ''credential'' (entry_name row) (entry_value row) tags
                (txn_remove ''Indy::Credential'' (entry_name row) s))"
    using rest n(1) by (rule Cons.IH)
  also have "\<dots> = filter (\<lambda>x. entry_category x = ''credential'' \<and> entry_name x = n) s"
    using n(2) by (auto simp: txn_insert_def txn_remove_def intro: filter_cong)
  finally show ?case .
qed

text \<open>
  No entry of the target category \<^verbatim>\<open>credential\<close> with the name \<open>n\<close> has been added
  or removed between two stores.
\<close>

definition same_credentials_named :: "string \<Rightarrow> store \<Rightarrow> store \<Rightarrow> bool" where
  "same_credentials_named n s s' \<longleftrightarrow>
     filter (\<lambda>x. entry_category x = ''credential'' \<and> entry_name x = n) s'
       = filter (\<lambda>x. entry_category x = ''credential'' \<and> entry_name x = n) s"

lemma convert_credentials_malformed:
  "vj (entry_value r) = Inr cd \<Longrightarrow> credential_tags cd = Inl err \<Longrightarrow>
   is_legacy_credential r \<Longrightarrow> r \<in> set s \<Longrightarrow>
   distinct (map entry_name (filter is_legacy_credential s)) \<Longrightarrow>
     \<exists>e s'. convert_credentials vj s = (Some e, s') \<and> r \<in> set s'
        \<and> same_credentials_named (entry_name r) s s'"
proof (induction vj s rule: convert_credentials.induct)
  case (1 vj s)
  note parsed = "1.prems"(1) and bad = "1.prems"(2) and leg = "1.prems"(3)
    and rs = "1.prems"(4) and dist = "1.prems"(5)
  define rows where "rows = fetch_all ''Indy::Credential'' (Some 50) s"
  have legacy: "filter (\<lambda>x. entry_category x = ''Indy::Credential'') s
                  = filter is_legacy_credential s"
    by (simp add: is_legacy_credential_def [abs_def])
  from rs leg have rin: "r \<in> set (filter is_legacy_credential s)" by simp
  then have "filter is_legacy_credential s \<noteq> []"
    by (metis empty_iff empty_set)
  then have ne: "rows \<noteq> []"
    by (simp add: rows_def fetch_all_def legacy)
  have sub: "set rows \<subseteq> set (filter is_legacy_credential s)"
    unfolding rows_def fetch_all_def legacy by (auto dest: in_set_takeD)
  show ?case
  proof (cases "convert_credential_rows vj rows s")
    case (Inl e)
    with ne have "convert_credentials vj s = (Some e, s)"
      by (simp add: convert_credentials.simps [of vj s] rows_def)
    with rs show ?thesis
      by (simp add: same_credentials_named_def)
  next
    case (Inr s')
    have "r \<notin> set rows"
    proof
      assume "r \<in> set rows"
      then have "\<exists>e. convert_credential_rows vj rows s = Inl e"
        using parsed bad
        by (rule convert_rows_raises [where vj = vj and r = r and cd = cd and err = err])
      with Inr show False by simp
    qed
    have name: "entry_name r \<notin> set (map entry_name rows)"
    proof
      assume "entry_name r \<in> set (map entry_name rows)"
      then obtain x where x: "x \<in> set rows" "entry_name x = entry_name r" by auto
      with sub have "x \<in> set (filter is_legacy_credential s)" by auto
      with rin x(2) dist
      have "x = r" by (meson distinct_map inj_onD)
      with x(1) \<open>r \<notin> set rows\<close> show False by simp
    qed
    from Inr rs name have r': "r \<in> set s'"
      by (auto intro: convert_rows_keeps)
    from Inr name have same: "same_credentials_named (entry_name r) s s'"
      unfolding same_credentials_named_def by (rule convert_rows_no_insert)
    have "filter is_legacy_credential s'
            = filter (\<lambda>x. entry_name x \<notin> set (map entry_name rows))
                (filter is_legacy_credential s)"
      using convert_rows_legacy [OF Inr] by (simp add: conj_commute)
    moreover have "distinct (map entry_name
            (filter (\<lambda>x. entry_name x \<notin> set (map entry_name rows))
                (filter is_legacy_credential s)))"
      using dist by (rule distinct_map_filter)
    ultimately have d': "distinct (map entry_name (filter is_legacy_credential s'))"
      by simp
    from ne Inr have step: "convert_credentials vj s = convert_credentials vj s'"
      by (simp add: convert_credentials.simps [of vj s] rows_def)
    from "1.IH" [OF ne [unfolded rows_def] Inr [unfolded rows_def] parsed bad leg r' d']
    obtain e s'' where
      "convert_credentials vj s' = (Some e, s'')" "r \<in> set s''"
      "same_credentials_named (entry_name r) s' s''"
      by blast
    with step same show ?thesis
      by (auto simp: same_credentials_named_def)
  qed
qed


lemma no_pattern_no_match:
  assumes "\<nexists>did a b. has_id_pattern marker s did a b"
  shows "match_id marker s = None"
proof (cases "match_id marker s")
  case None
  then show ?thesis .
next
  case (Some g)
  obtain did a b where "g = (did, a, b)" by (cases g)
  with Some have "has_id_pattern marker s did a b" by (simp add: match_id_sound)
  with assms show ?thesis by blast
qed

lemma pattern_match:
  assumes "has_id_pattern (CHR '':'' # ms) s did a b"
  shows "match_id (CHR '':'' # ms) s = Some (did, a, b)"
  using assms by (rule match_id_complete) (simp add: is_word_char_def)

text \<open>
  Claim C7. When the schema identifier does not have the form
  \<^verbatim>\<open><issuerDid>:2:<name>:<version>\<close>, tag derivation raises \<^verbatim>\<open>UpgradeError\<close> with a
  message that ends with the identifier; when it has, and the credential definition
  identifier does not have the form \<^verbatim>\<open><issuerDid>:3:CL:<schemaSeqNo>:<tag>\<close>, it raises
  \<^verbatim>\<open>UpgradeError\<close> with a message that ends with that identifier. In the conversion,
  when such a credential is the first of a fetched batch, the loop ends with that very
  error and the store as it was before the batch. Wherever the credential is in a store
  whose legacy credentials have distinct names, the loop ends with an exception, the
  legacy row is still in the store and no entry with its name has been inserted into the
  target category.
\<close>

theorem credential_tags_malformed:
  "((\<nexists>did a b. has_id_pattern '':2:'' (schema_id cd) did a b) \<longrightarrow>
      credential_tags cd
        = Inl (UpgradeError (''Error parsing credential schema ID: '' @ schema_id cd)))
   \<and> ((\<exists>did a b. has_id_pattern '':2:'' (schema_id cd) did a b)
        \<and> (\<nexists>did a b. has_id_pattern '':3:CL:'' (cred_def_id cd) did a b) \<longrightarrow>
      credential_tags cd
        = Inl (UpgradeError (''Error parsing credential definition ID: '' @ cred_def_id cd)))
   \<and> (((\<nexists>did a b. has_id_pattern '':2:'' (schema_id cd) did a b)
         \<or> (\<nexists>did a b. has_id_pattern '':3:CL:'' (cred_def_id cd) did a b))
        \<and> fetch_all ''Indy::Credential'' (Some 50) s = r # rest
        \<and> value_json (entry_value r) = Inr cd \<longrightarrow>
      (\<exists>msg. convert_credentials value_json s = (Some (UpgradeError msg), s)
           \<and> credential_tags cd = Inl (UpgradeError msg)))
   \<and> (((\<nexists>did a b. has_id_pattern '':2:'' (schema_id cd) did a b)
         \<or> (\<nexists>did a b. has_id_pattern '':3:CL:'' (cred_def_id cd) did a b))
        \<and> is_legacy_credential r \<and> r \<in> set s \<and> value_json (entry_value r) = Inr cd
        \<and> distinct (map entry_name (filter is_legacy_credential s)) \<longrightarrow>
      (\<exists>e s'. convert_credentials value_json s = (Some e, s') \<and> r \<in> set s'
           \<and> same_credentials_named (entry_name r) s s'))"
proof -
  have schema: "credential_tags cd
        = Inl (UpgradeError (''Error parsing credential schema ID: '' @ schema_id cd))"
    if "\<nexists>did a b. has_id_pattern '':2:'' (schema_id cd) did a b"
    using no_pattern_no_match [OF that] by (simp add: credential_tags_def)
  have cdef: "credential_tags cd
        = Inl (UpgradeError (''Error parsing credential definition ID: '' @ cred_def_id cd))"
    if "\<exists>did a b. has_id_pattern '':2:'' (schema_id cd) did a b"
      and "\<nexists>did a b. has_id_pattern '':3:CL:'' (cred_def_id cd) did a b"
  proof -
    from that(1) obtain did a b where "has_id_pattern '':2:'' (schema_id cd) did a b"
      by blast
    then have "match_id '':2:'' (schema_id cd) = Some (did, a, b)"
      by (rule pattern_match)
    with no_pattern_no_match [OF that(2)] show ?thesis
      by (simp add: credential_tags_def)
  qed
  have raises: "\<exists>msg. credential_tags cd = Inl (UpgradeError msg)"
    if "(\<nexists>did a b. has_id_pattern '':2:'' (schema_id cd) did a b)
         \<or> (\<nexists>did a b. has_id_pattern '':3:CL:'' (cred_def_id cd) did a b)"
    using that schema cdef by blast
  have first: "\<exists>msg. convert_credentials value_json s = (Some (UpgradeError msg), s)
           \<and> credential_tags cd = Inl (UpgradeError msg)"
    if bad: "(\<nexists>did a b. has_id_pattern '':2:'' (schema_id cd) did a b)
         \<or> (\<nexists>did a b. has_id_pattern '':3:CL:'' (cred_def_id cd) did a b)"
      and f: "fetch_all ''Indy::Credential'' (Some 50) s = r # rest"
      and vj: "value_json (entry_value r) = Inr cd"
  proof -
    from raises [OF bad] obtain msg where msg: "credential_tags cd = Inl (UpgradeError msg)"
      by blast
    with f vj have "convert_credentials value_json s = (Some (UpgradeError msg), s)"
      by (simp add: convert_credentials.simps [of value_json s] Let_def)
    with msg show ?thesis by blast
  qed
  have anywhere: "\<exists>e s'. convert_credentials value_json s = (Some e, s') \<and> r \<in> set s'
           \<and> same_credentials_named (entry_name r) s s'"
    if bad: "(\<nexists>did a b. has_id_pattern '':2:'' (schema_id cd) did a b)
         \<or> (\<nexists>did a b. has_id_pattern '':3:CL:'' (cred_def_id cd) did a b)"
      and "is_legacy_credential r" "r \<in> set s" "value_json (entry_value r) = Inr cd"
      "distinct (map entry_name (filter is_legacy_credential s))"
  proof -
    from raises [OF bad] obtain msg where "credential_tags cd = Inl (UpgradeError msg)"
      by blast
    with that(2-) show ?thesis
      using convert_credentials_malformed
        [where vj = value_json and r = r and cd = cd and err = "UpgradeError msg" and s = s]
      by blast
  qed
  from schema cdef first anywhere show ?thesis by blast
qed

definition malformed_cred :: cred_data where
  "malformed_cred = \<lparr> schema_id = ''not-an-id'',
     cred_def_id = ''Th7MpTaRZVRYnPiabds81Y:3:CL:12:tag'', rev_reg_id = None,
     cred_values = [] \<rparr>"

definition malformed_row :: entry where
  "malformed_row = \<lparr> entry_category = ''Indy::Credential'', entry_name = ''cred-1'',
     entry_value = [123, 125], entry_tags = [] \<rparr>"

lemma not_an_id_no_pattern: "\<nexists>did a b. has_id_pattern '':2:'' ''not-an-id'' did a b"
proof
  assume "\<exists>did a b. has_id_pattern '':2:'' ''not-an-id'' did a b"
  then obtain did a b where "has_id_pattern '':2:'' ''not-an-id'' did a b" by blast
  then have "match_id '':2:'' ''not-an-id'' = Some (did, a, b)" by (rule pattern_match)
  then show False by (simp add: match_id_def is_word_char_def)
qed

theorem credential_tags_malformed_witness:
  "(\<nexists>did a b. has_id_pattern '':2:'' (schema_id malformed_cred) did a b)
   \<and> credential_tags malformed_cred
       = Inl (UpgradeError ''Error parsing credential schema ID: not-an-id'')
   \<and> fetch_all ''Indy::Credential'' (Some 50) [malformed_row] = [malformed_row]
   \<and> convert_credentials (\<lambda>_. Inr malformed_cred) [malformed_row]
       = (Some (UpgradeError ''Error parsing credential schema ID: not-an-id''),
          [malformed_row])
   \<and> fetch_all ''credential'' None [malformed_row] = []"
proof -
  have np: "\<nexists>did a b. has_id_pattern '':2:'' (schema_id malformed_cred) did a b"
    using not_an_id_no_pattern by (simp add: malformed_cred_def)
  have f: "fetch_all ''Indy::Credential'' (Some 50) [malformed_row] = [malformed_row]"
    by (simp add: fetch_all_def malformed_row_def)
  have vj: "(\<lambda>_. Inr malformed_cred :: error + cred_data) (entry_value malformed_row)
              = Inr malformed_cred"
    by simp
  note inst = credential_tags_malformed [where cd = malformed_cred and s = "[malformed_row]"
      and r = malformed_row and rest = "[]" and value_json = "\<lambda>_. Inr malformed_cred"]
  from inst np have tags: "credential_tags malformed_cred
       = Inl (UpgradeError (''Error parsing credential schema ID: '' @ schema_id malformed_cred))"
    by blast
  from inst np f vj obtain msg where
    "convert_credentials (\<lambda>_. Inr malformed_cred) [malformed_row]
       = (Some (UpgradeError msg), [malformed_row])"
    "credential_tags malformed_cred = Inl (UpgradeError msg)"
    by blast
  with tags have "convert_credentials (\<lambda>_. Inr malformed_cred) [malformed_row]
       = (Some (UpgradeError (''Error parsing credential schema ID: '' @ schema_id malformed_cred)),
          [malformed_row])"
    by simp
  moreover have "fetch_all ''credential'' None [malformed_row] = []"
    by (simp add: fetch_all_def malformed_row_def)
  ultimately show ?thesis
    using np tags f by (simp add: malformed_cred_def)
qed

section \<open>Profile keys\<close>

text \<open>
  \<^verbatim>\<open>Strategy.init_profile(wallet, name, indy_key)\<close> and its override
  \<^verbatim>\<open>MwstAsProfilesStrategy.init_profile(wallet, name, base_indy_key, indy_key)\<close>. Both
  build the same dictionary (\<open>build_profile_key\<close>), serialise it with
  \<^verbatim>\<open>cbor2.dumps\<close> (a library function, the parameter \<open>cbor_dumps\<close>), encrypt it with
  \<open>encrypt_merged\<close> without an HMAC key and hand the result to the wallet's
  \<^verbatim>\<open>insert_profile\<close>. They differ in the key: the master key of the wallet's own key
  bundle, or that of the base wallet's.
\<close>

definition build_profile_key :: "indy_key \<Rightarrow> profile_key" where
  "build_profile_key indy_key =
     \<lparr> ver = ''1'', ick = ik_type indy_key, ink = ik_name indy_key,
       ihk = ik_item_hmac indy_key, tnk = ik_tag_name indy_key,
       tvk = ik_tag_value indy_key, thk = ik_tag_hmac indy_key \<rparr>"

definition init_profile ::
  "prims \<Rightarrow> (profile_key \<Rightarrow> bytes) \<Rightarrow> wallet \<Rightarrow> string \<Rightarrow> indy_key \<Rightarrow> entropy
     \<Rightarrow> error + (profile_key \<times> wallet \<times> entropy)" where
  "init_profile P cbor_dumps w name indy_key e =
     (let profile_key = build_profile_key indy_key in
      case encrypt_merged P (cbor_dumps profile_key) (ik_master indy_key) None e of
        Inl err \<Rightarrow> Inl err
      | Inr (enc_pk, e') \<Rightarrow> Inr (profile_key, insert_profile name enc_pk w, e'))"

definition mwst_init_profile ::
  "prims \<Rightarrow> (profile_key \<Rightarrow> bytes) \<Rightarrow> wallet \<Rightarrow> string \<Rightarrow> indy_key \<Rightarrow> indy_key \<Rightarrow> entropy
     \<Rightarrow> error + (profile_key \<times> wallet \<times> entropy)" where
  "mwst_init_profile P cbor_dumps w name base_indy_key indy_key e =
     (let profile_key = build_profile_key indy_key in
      case encrypt_merged P (cbor_dumps profile_key) (ik_master base_indy_key) None e of
        Inl err \<Rightarrow> Inl err
      | Inr (enc_pk, e') \<Rightarrow> Inr (profile_key, insert_profile name enc_pk w, e'))"

text \<open>
  The two statements that follow each other in the \<^verbatim>\<open>try\<close> body of
  \<^verbatim>\<open>DbpwStrategy.run\<close>,
  \<^verbatim>\<open>profile_key = await self.init_profile(wallet, self.wallet_name, indy_key)\<close> and
  \<^verbatim>\<open>await self.update_items(wallet, indy_key, profile_key)\<close>, on the state of the
  wallet; and the same two statements in the loop of \<^verbatim>\<open>MwstAsProfilesStrategy.run\<close>,
  where \<^verbatim>\<open>init_profile\<close> also takes the base wallet's bundle. An exception of
  \<^verbatim>\<open>init_profile\<close> leaves the wallet as it was and the loop is not entered.
\<close>

definition dbpw_rekey_wallet ::
  "prims \<Rightarrow> (profile_key \<Rightarrow> bytes) \<Rightarrow> wallet \<Rightarrow> string \<Rightarrow> indy_key \<Rightarrow> entropy
     \<Rightarrow> error option \<times> wallet \<times> entropy" where
  "dbpw_rekey_wallet P cbor_dumps w wallet_name indy_key e =
     (case init_profile P cbor_dumps w wallet_name indy_key e of
        Inl err \<Rightarrow> (Some err, w, e)
      | Inr (profile_key, w1, e1) \<Rightarrow> update_items P indy_key profile_key w1 e1)"

definition mwst_rekey_wallet ::
  "prims \<Rightarrow> (profile_key \<Rightarrow> bytes) \<Rightarrow> wallet \<Rightarrow> string \<Rightarrow> indy_key \<Rightarrow> indy_key \<Rightarrow> entropy
     \<Rightarrow> error option \<times> wallet \<times> entropy" where
  "mwst_rekey_wallet P cbor_dumps w wallet_name base_indy_key indy_key e =
     (case mwst_init_profile P cbor_dumps w wallet_name base_indy_key indy_key e of
        Inl err \<Rightarrow> (Some err, w, e)
      | Inr (profile_key, w1, e1) \<Rightarrow> update_items P indy_key profile_key w1 e1)"

section \<open>The two strategies\<close>

text \<open>
  \<^verbatim>\<open>DbpwStrategy.run\<close> and \<^verbatim>\<open>MwstAsProfilesStrategy.run\<close> are sequences of calls in
  which no result decides what is called next; only an exception changes the course.
  An \<open>op\<close> is one call: \<^verbatim>\<open>conn.connect()\<close>, \<^verbatim>\<open>conn.get_wallet(name)\<close>,
  \<^verbatim>\<open>conn.pre_upgrade()\<close>, \<^verbatim>\<open>fetch_indy_key\<close> for a wallet, \<^verbatim>\<open>create_config\<close> with
  the key bundle of a wallet, \<^verbatim>\<open>init_profile\<close> for a wallet with the master key of the
  bundle of the second wallet, \<^verbatim>\<open>update_items\<close> for a wallet,
  \<^verbatim>\<open>conn.finish_upgrade()\<close>, \<^verbatim>\<open>conn.close()\<close> and \<^verbatim>\<open>convert_items_to_askar\<close> for
  a wallet or profile. A trace records the calls made, in order, each with whether it
  returned (\<open>True\<close>) or raised (\<open>False\<close>). Which calls raise is not determined by the
  strategy: \<open>raises tr x\<close> says whether the call \<open>x\<close> raises after the trace \<open>tr\<close>.
\<close>

datatype op =
    Connect
  | GetWallet string
  | PreUpgrade
  | FetchIndyKey string
  | CreateConfig string
  | InitProfile string string
  | UpdateItems string
  | FinishUpgrade
  | Close
  | ConvertItems string

type_synonym trace = "(op \<times> bool) list"

definition call :: "(trace \<Rightarrow> op \<Rightarrow> bool) \<Rightarrow> op \<Rightarrow> trace \<Rightarrow> bool \<times> trace" where
  "call raises x tr = (if raises tr x then (False, tr @ [(x, False)]) else (True, tr @ [(x, True)]))"

fun run_ops :: "(trace \<Rightarrow> op \<Rightarrow> bool) \<Rightarrow> op list \<Rightarrow> trace \<Rightarrow> bool \<times> trace" where
  "run_ops raises [] tr = (True, tr)"
| "run_ops raises (x # xs) tr =
     (case call raises x tr of
        (False, tr') \<Rightarrow> (False, tr')
      | (True, tr') \<Rightarrow> run_ops raises xs tr')"

text \<open>
  \<^verbatim>\<open>try: body finally: final\<close>: the final part runs whether the body raised or not,
  and the statement completes normally only when both did.
\<close>

definition try_finally ::
  "(trace \<Rightarrow> bool \<times> trace) \<Rightarrow> (trace \<Rightarrow> bool \<times> trace) \<Rightarrow> trace \<Rightarrow> bool \<times> trace" where
  "try_finally body final tr =
     (case body tr of (ok, tr1) \<Rightarrow>
        (case final tr1 of (okf, tr2) \<Rightarrow> (ok \<and> okf, tr2)))"

text \<open>
  The shape both \<^verbatim>\<open>run\<close> methods have: calls before the \<^verbatim>\<open>try\<close>, the body of the
  \<^verbatim>\<open>try\<close>, \<^verbatim>\<open>conn.close()\<close> in the \<^verbatim>\<open>finally\<close>, and the calls after it.
\<close>

definition run_sequence ::
  "(trace \<Rightarrow> op \<Rightarrow> bool) \<Rightarrow> op list \<Rightarrow> op list \<Rightarrow> op list \<Rightarrow> bool \<times> trace" where
  "run_sequence raises before body after =
     (case run_ops raises before [] of
        (False, tr) \<Rightarrow> (False, tr)
      | (True, tr) \<Rightarrow>
         (case try_finally (run_ops raises body) (run_ops raises [Close]) tr of
            (False, tr') \<Rightarrow> (False, tr')
          | (True, tr') \<Rightarrow> run_ops raises after tr'))"

text \<open>
  \<^verbatim>\<open>DbpwStrategy.run\<close>. \<open>dbpw_steps\<close> are the calls in the \<^verbatim>\<open>try\<close> before
  \<^verbatim>\<open>finish_upgrade\<close>.
\<close>

definition dbpw_steps :: "string \<Rightarrow> op list" where
  "dbpw_steps wallet_name =
     [PreUpgrade, FetchIndyKey wallet_name, CreateConfig wallet_name,
      InitProfile wallet_name wallet_name, UpdateItems wallet_name]"

definition run_dbpw :: "(trace \<Rightarrow> op \<Rightarrow> bool) \<Rightarrow> string \<Rightarrow> bool \<times> trace" where
  "run_dbpw raises wallet_name =
     run_sequence raises [Connect, GetWallet wallet_name]
       (dbpw_steps wallet_name @ [FinishUpgrade])
       [ConvertItems wallet_name]"

text \<open>
  \<^verbatim>\<open>MwstAsProfilesStrategy.run\<close> for the wallet names in the order of
  \<^verbatim>\<open>wallet_keys\<close>. \<open>mwst_steps\<close> are the calls in the \<^verbatim>\<open>try\<close> before
  \<^verbatim>\<open>finish_upgrade\<close>.
\<close>

definition mwst_steps :: "string \<Rightarrow> string list \<Rightarrow> op list" where
  "mwst_steps base_wallet_name wallet_names =
     [PreUpgrade, GetWallet base_wallet_name, FetchIndyKey base_wallet_name,
      CreateConfig base_wallet_name]
     @ concat (map (\<lambda>wallet_name.
          [GetWallet wallet_name, FetchIndyKey wallet_name,
           InitProfile wallet_name base_wallet_name, UpdateItems wallet_name]) wallet_names)"

definition run_mwst :: "(trace \<Rightarrow> op \<Rightarrow> bool) \<Rightarrow> string \<Rightarrow> string list \<Rightarrow> bool \<times> trace" where
  "run_mwst raises base_wallet_name wallet_names =
     run_sequence raises [Connect]
       (mwst_steps base_wallet_name wallet_names @ [FinishUpgrade])
       (map ConvertItems wallet_names)"

definition returned :: "op list \<Rightarrow> trace" where
  "returned xs = map (\<lambda>x. (x, True)) xs"

lemma run_ops_shape:
  "run_ops raises prog tr = (ok, tr') \<Longrightarrow>
     (ok \<and> tr' = tr @ returned prog)
   \<or> (\<not> ok \<and> (\<exists>done x rest. prog = done @ x # rest \<and> tr' = tr @ returned done @ [(x, False)]))"
proof (induction prog arbitrary: tr)
  case Nil
  then show ?case by (auto simp: returned_def)
next
  case (Cons x xs)
  show ?case
  proof (cases "raises tr x")
    case True
    with Cons.prems have "\<not> ok" "tr' = tr @ returned [] @ [(x, False)]"
      by (auto simp: call_def returned_def)
    then show ?thesis by (metis append_Nil)
  next
    case False
    with Cons.prems have "run_ops raises xs (tr @ [(x, True)]) = (ok, tr')"
      by (simp add: call_def)
    from Cons.IH [OF this] show ?thesis
    proof
      assume "ok \<and> tr' = (tr @ [(x, True)]) @ returned xs"
      then show ?thesis by (simp add: returned_def)
    next
      assume "\<not> ok \<and> (\<exists>done y rest. xs = done @ y # rest
                \<and> tr' = (tr @ [(x, True)]) @ returned done @ [(y, False)])"
      then obtain "done" y rest where "\<not> ok" "xs = done @ y # rest"
        "tr' = (tr @ [(x, True)]) @ returned done @ [(y, False)]" by blast
      then have "\<not> ok" "x # xs = (x # done) @ y # rest"
        "tr' = tr @ returned (x # done) @ [(y, False)]"
        by (simp_all add: returned_def)
      then show ?thesis by blast
    qed
  qed
qed

lemma run_sequence_shape:
  assumes "run_sequence raises before body after = (ok, tr)"
  shows "(\<not> ok \<and> (\<exists>done x rest. before = done @ x # rest \<and> tr = returned done @ [(x, False)]))
       \<or> (\<not> ok \<and> (\<exists>done x rest c. body = done @ x # rest
              \<and> tr = returned before @ returned done @ [(x, False), (Close, c)]))
       \<or> (\<not> ok \<and> tr = returned before @ returned body @ [(Close, False)])
       \<or> (\<not> ok \<and> (\<exists>done x rest. after = done @ x # rest
              \<and> tr = returned before @ returned body @ [(Close, True)] @ returned done
                     @ [(x, False)]))
       \<or> (ok \<and> tr = returned before @ returned body @ [(Close, True)] @ returned after)"
proof -
  obtain ok0 tr0 where r0: "run_ops raises before [] = (ok0, tr0)" by fastforce
  obtain ok1 tr1 where r1: "run_ops raises body tr0 = (ok1, tr1)" by fastforce
  obtain ok2 tr2 where r2: "run_ops raises [Close] tr1 = (ok2, tr2)" by fastforce
  obtain ok3 tr3 where r3: "run_ops raises after tr2 = (ok3, tr3)" by fastforce
  from r2 have c: "tr2 = tr1 @ [(Close, ok2)]"
    by (auto simp: call_def split: if_splits)
  show ?thesis
  proof (cases ok0)
    case False
    with r0 assms have "\<not> ok" "tr = tr0" by (simp_all add: run_sequence_def)
    with run_ops_shape [OF r0] False show ?thesis by auto
  next
    case True
    with run_ops_shape [OF r0] have t0: "tr0 = returned before" by auto
    show ?thesis
    proof (cases "ok1 \<and> ok2")
      case False
      with True r0 r1 r2 assms have res: "\<not> ok" "tr = tr2"
        by (auto simp: run_sequence_def try_finally_def)
      show ?thesis
      proof (cases ok1)
        case False
        with run_ops_shape [OF r1] obtain "done" x rest where
          "body = done @ x # rest" "tr1 = tr0 @ returned done @ [(x, False)]" by auto
        with res c t0 show ?thesis by auto
      next
        case True
        with run_ops_shape [OF r1] have "tr1 = tr0 @ returned body" by auto
        with res c t0 True \<open>\<not> (ok1 \<and> ok2)\<close> show ?thesis by auto
      qed
    next
      case both: True
      with run_ops_shape [OF r1] have t1: "tr1 = tr0 @ returned body" by auto
      from True both r0 r1 r2 r3 assms have res: "ok = ok3" "tr = tr3"
        by (auto simp: run_sequence_def try_finally_def)
      from run_ops_shape [OF r3] res c t0 t1 both show ?thesis by auto
    qed
  qed
qed


text \<open>
  \<open>returned_before a b tr\<close>: in the trace, no call of \<open>b\<close> comes before a call of
  \<open>a\<close> that returned. \<open>precedes a b xs\<close> is the same for a list of calls.
\<close>

fun returned_before :: "op \<Rightarrow> op \<Rightarrow> trace \<Rightarrow> bool" where
  "returned_before a b [] = True"
| "returned_before a b ((x, r) # tr) =
     (if x = a \<and> r then True else if x = b then False else returned_before a b tr)"

fun precedes :: "op \<Rightarrow> op \<Rightarrow> op list \<Rightarrow> bool" where
  "precedes a b [] = True"
| "precedes a b (x # xs) = (if x = a then True else if x = b then False else precedes a b xs)"

lemma returned_simps [simp]:
  "returned [] = []"
  "returned (x # xs) = (x, True) # returned xs"
  "returned (xs @ ys) = returned xs @ returned ys"
  by (simp_all add: returned_def)

lemma fst_returned [simp]: "fst ` set (returned xs) = set xs"
  by (induction xs) auto

lemma in_returned [simp]: "(x, r) \<in> set (returned xs) \<longleftrightarrow> r \<and> x \<in> set xs"
  by (induction xs) auto

lemma returned_before_absent: "b \<notin> fst ` set tr \<Longrightarrow> returned_before a b tr"
  by (induction tr) (auto split: if_splits)

lemma returned_before_prefix:
  "b \<notin> fst ` set xs \<Longrightarrow> (a, True) \<in> set xs \<Longrightarrow> returned_before a b (xs @ ys)"
  by (induction xs) (auto split: if_splits)

lemma precedes_returned_before:
  assumes "a \<noteq> b" and "b \<notin> fst ` set rest"
  shows "precedes a b pfx \<Longrightarrow> returned_before a b (returned pfx @ rest)"
    and "precedes a b (pfx @ y # sfx) \<Longrightarrow> returned_before a b (returned pfx @ (y, r) # rest)"
  using assms
  by (induction pfx) (auto simp: returned_before_absent split: if_splits)

lemma last_step_split:
  assumes "steps @ [f] = done @ y # rest" and "f \<notin> set steps"
  shows "(y = f \<and> done = steps \<and> rest = []) \<or> (y \<in> set steps \<and> f \<notin> set done \<and> y \<noteq> f)"
proof (cases rest rule: rev_cases)
  case Nil
  with assms show ?thesis by auto
next
  case (snoc rest' z)
  with assms have "steps = done @ y # rest'" by simp
  with assms(2) show ?thesis by auto
qed

lemma finish_after_steps:
  assumes run: "run_sequence raises before (steps @ [FinishUpgrade]) after = (ok, tr)"
    and nb: "FinishUpgrade \<notin> set before" and ns: "FinishUpgrade \<notin> set steps"
    and inv: "FinishUpgrade \<in> fst ` set tr" and x: "x \<in> set steps"
  shows "returned_before x FinishUpgrade tr"
proof -
  have pre: "returned_before x FinishUpgrade ((returned before @ returned steps) @ ys)" for ys
    using nb ns x by (intro returned_before_prefix) auto
  from run_sequence_shape [OF run] show ?thesis
  proof (elim disjE conjE exE)
    fix "done" y rest
    assume "before = done @ y # rest" "tr = returned done @ [(y, False)]"
    with inv nb show ?thesis by auto
  next
    fix "done" y rest c
    assume b: "steps @ [FinishUpgrade] = done @ y # rest"
      and tr: "tr = returned before @ returned done @ [(y, False), (Close, c)]"
    from last_step_split [OF b ns] show ?thesis
    proof
      assume "y = FinishUpgrade \<and> done = steps \<and> rest = []"
      with tr pre [of "[(FinishUpgrade, False), (Close, c)]"] show ?thesis by simp
    next
      assume "y \<in> set steps \<and> FinishUpgrade \<notin> set done \<and> y \<noteq> FinishUpgrade"
      with tr inv nb show ?thesis by auto
    qed
  next
    assume "tr = returned before @ returned (steps @ [FinishUpgrade]) @ [(Close, False)]"
    with pre [of "[(FinishUpgrade, True), (Close, False)]"] show ?thesis by simp
  next
    fix "done" y rest
    assume "tr = returned before @ returned (steps @ [FinishUpgrade]) @ [(Close, True)]
                   @ returned done @ [(y, False)]"
    with pre [of "[(FinishUpgrade, True), (Close, True)] @ returned done @ [(y, False)]"]
    show ?thesis by simp
  next
    assume "tr = returned before @ returned (steps @ [FinishUpgrade]) @ [(Close, True)]
                   @ returned after"
    with pre [of "[(FinishUpgrade, True), (Close, True)] @ returned after"]
    show ?thesis by simp
  qed
qed

lemma no_finish_after_failure:
  assumes run: "run_sequence raises before (steps @ [FinishUpgrade]) after = (ok, tr)"
    and nb: "FinishUpgrade \<notin> set before" and ns: "FinishUpgrade \<notin> set steps"
    and na: "FinishUpgrade \<notin> set after"
    and x: "x \<in> set steps" and xb: "x \<notin> set before" and xa: "x \<notin> set after"
    and xc: "x \<noteq> Close" and failed: "(x, False) \<in> set tr"
  shows "FinishUpgrade \<notin> fst ` set tr \<and> Close \<in> fst ` set tr \<and> \<not> ok
         \<and> set after \<inter> fst ` set tr \<subseteq> set before \<union> set steps \<union> {Close}"
proof -
  from ns x have xf: "x \<noteq> FinishUpgrade" by auto
  from run_sequence_shape [OF run] show ?thesis
  proof (elim disjE conjE exE)
    fix "done" y rest
    assume "before = done @ y # rest" "tr = returned done @ [(y, False)]"
    with failed xb show ?thesis by auto
  next
    fix "done" y rest c
    assume nok: "\<not> ok" and b: "steps @ [FinishUpgrade] = done @ y # rest"
      and tr: "tr = returned before @ returned done @ [(y, False), (Close, c)]"
    from tr failed xc have "y = x" by auto
    with last_step_split [OF b ns] xf have d: "FinishUpgrade \<notin> set done" "y \<in> set steps"
      by auto
    from b have "set done \<subseteq> set (steps @ [FinishUpgrade])" by auto
    with d have "set done \<subseteq> set steps" by auto
    with tr nok nb d xf \<open>y = x\<close> show ?thesis by auto
  next
    assume "tr = returned before @ returned (steps @ [FinishUpgrade]) @ [(Close, False)]"
    with failed xc show ?thesis by auto
  next
    fix "done" y rest
    assume "after = done @ y # rest"
      "tr = returned before @ returned (steps @ [FinishUpgrade]) @ [(Close, True)]
              @ returned done @ [(y, False)]"
    with failed xa show ?thesis by auto
  next
    assume "tr = returned before @ returned (steps @ [FinishUpgrade]) @ [(Close, True)]
                   @ returned after"
    with failed show ?thesis by auto
  qed
qed

lemma convert_after_close:
  assumes run: "run_sequence raises before (steps @ [FinishUpgrade]) after = (ok, tr)"
    and y: "y \<in> fst ` set tr" and yb: "y \<notin> set before" and ys: "y \<notin> set steps"
    and yf: "y \<noteq> FinishUpgrade" and yc: "y \<noteq> Close"
  shows "returned_before Close y tr \<and> returned_before FinishUpgrade y tr
         \<and> (FinishUpgrade, True) \<in> set tr \<and> (Close, True) \<in> set tr"
proof -
  have pre: "returned_before Close y
               ((returned before @ returned (steps @ [FinishUpgrade]) @ [(Close, True)]) @ zs)"
    "returned_before FinishUpgrade y
               ((returned before @ returned (steps @ [FinishUpgrade]) @ [(Close, True)]) @ zs)"
    for zs
    using yb ys yf yc by (intro returned_before_prefix; auto)+
  from run_sequence_shape [OF run] show ?thesis
  proof (elim disjE conjE exE)
    fix "done" x rest
    assume "before = done @ x # rest" "tr = returned done @ [(x, False)]"
    with y yb show ?thesis by auto
  next
    fix "done" x rest c
    assume b: "steps @ [FinishUpgrade] = done @ x # rest"
      and tr: "tr = returned before @ returned done @ [(x, False), (Close, c)]"
    from b have "set done \<subseteq> set (steps @ [FinishUpgrade])" "x \<in> set (steps @ [FinishUpgrade])"
      by (auto simp: append_eq_append_conv2 append_eq_Cons_conv Cons_eq_append_conv)
    with tr y yb ys yf yc show ?thesis by auto
  next
    assume "tr = returned before @ returned (steps @ [FinishUpgrade]) @ [(Close, False)]"
    with y yb ys yf yc show ?thesis by auto
  next
    fix "done" x rest
    assume "tr = returned before @ returned (steps @ [FinishUpgrade]) @ [(Close, True)]
                   @ returned done @ [(x, False)]"
    with pre [of "returned done @ [(x, False)]"] show ?thesis by simp
  next
    assume "tr = returned before @ returned (steps @ [FinishUpgrade]) @ [(Close, True)]
                   @ returned after"
    with pre [of "returned after"] show ?thesis by simp
  qed
qed


lemma dbpw_steps_facts:
  "FinishUpgrade \<notin> set (dbpw_steps name)" "Close \<notin> set (dbpw_steps name)"
  "ConvertItems n \<notin> set (dbpw_steps name)" "Connect \<notin> set (dbpw_steps name)"
  "GetWallet n \<notin> set (dbpw_steps name)"
  by (simp_all add: dbpw_steps_def)

lemma mwst_steps_facts:
  "FinishUpgrade \<notin> set (mwst_steps base names)" "Close \<notin> set (mwst_steps base names)"
  "ConvertItems n \<notin> set (mwst_steps base names)" "Connect \<notin> set (mwst_steps base names)"
  by (auto simp: mwst_steps_def)

text \<open>
  Claim C5. In a run of either strategy, when \<^verbatim>\<open>finish_upgrade\<close> is called, every
  call of the \<^verbatim>\<open>try\<close> body before it (pre-upgrade, key unlock, config creation,
  profile-key initialisation and the re-key loop, for every wallet) has returned before.
  When one of these calls raises, \<^verbatim>\<open>finish_upgrade\<close> is not called, \<^verbatim>\<open>close\<close> is
  called, the run ends with the exception and no structural conversion is started. A
  structural conversion is started only after \<^verbatim>\<open>close\<close> and \<^verbatim>\<open>finish_upgrade\<close> have
  returned.
\<close>

theorem finish_upgrade_only_after_success:
  "(run_dbpw raises name = (ok, tr) \<and> FinishUpgrade \<in> fst ` set tr \<longrightarrow>
      (\<forall>x \<in> set (dbpw_steps name). returned_before x FinishUpgrade tr))
   \<and> (run_dbpw raises name = (ok, tr) \<and> x \<in> set (dbpw_steps name) \<and> (x, False) \<in> set tr \<longrightarrow>
        FinishUpgrade \<notin> fst ` set tr \<and> Close \<in> fst ` set tr \<and> \<not> ok
      \<and> ConvertItems name \<notin> fst ` set tr)
   \<and> (run_dbpw raises name = (ok, tr) \<and> ConvertItems n \<in> fst ` set tr \<longrightarrow>
        returned_before Close (ConvertItems n) tr
      \<and> returned_before FinishUpgrade (ConvertItems n) tr)
   \<and> (run_mwst raises base names = (ok', tr') \<and> FinishUpgrade \<in> fst ` set tr' \<longrightarrow>
        (\<forall>x \<in> set (mwst_steps base names). returned_before x FinishUpgrade tr'))
   \<and> (run_mwst raises base names = (ok', tr') \<and> y \<in> set (mwst_steps base names)
        \<and> (y, False) \<in> set tr' \<longrightarrow>
        FinishUpgrade \<notin> fst ` set tr' \<and> Close \<in> fst ` set tr' \<and> \<not> ok'
      \<and> (\<forall>m. ConvertItems m \<notin> fst ` set tr'))
   \<and> (run_mwst raises base names = (ok', tr') \<and> ConvertItems n \<in> fst ` set tr' \<longrightarrow>
        returned_before Close (ConvertItems n) tr'
      \<and> returned_before FinishUpgrade (ConvertItems n) tr')"
proof (intro conjI impI ballI allI)
  fix z
  assume "run_dbpw raises name = (ok, tr) \<and> FinishUpgrade \<in> fst ` set tr"
    and "z \<in> set (dbpw_steps name)"
  then show "returned_before z FinishUpgrade tr"
    unfolding run_dbpw_def
    by (intro finish_after_steps [where steps = "dbpw_steps name"])
      (auto simp: dbpw_steps_facts)
next
  assume a: "run_dbpw raises name = (ok, tr) \<and> x \<in> set (dbpw_steps name) \<and> (x, False) \<in> set tr"
  have "FinishUpgrade \<notin> fst ` set tr \<and> Close \<in> fst ` set tr \<and> \<not> ok
         \<and> set [ConvertItems name] \<inter> fst ` set tr
             \<subseteq> set [Connect, GetWallet name] \<union> set (dbpw_steps name) \<union> {Close}"
    using a unfolding run_dbpw_def
    by (intro no_finish_after_failure [where x = x]) (auto simp: dbpw_steps_def)
  then show "FinishUpgrade \<notin> fst ` set tr" "Close \<in> fst ` set tr" "\<not> ok"
    "ConvertItems name \<notin> fst ` set tr"
    by (auto simp: dbpw_steps_def)
next
  assume a: "run_dbpw raises name = (ok, tr) \<and> ConvertItems n \<in> fst ` set tr"
  have "returned_before Close (ConvertItems n) tr
      \<and> returned_before FinishUpgrade (ConvertItems n) tr
      \<and> (FinishUpgrade, True) \<in> set tr \<and> (Close, True) \<in> set tr"
    using a unfolding run_dbpw_def
    by (intro convert_after_close [where steps = "dbpw_steps name"])
      (auto simp: dbpw_steps_facts)
  then show "returned_before Close (ConvertItems n) tr"
    "returned_before FinishUpgrade (ConvertItems n) tr"
    by simp_all
next
  fix z
  assume "run_mwst raises base names = (ok', tr') \<and> FinishUpgrade \<in> fst ` set tr'"
    and "z \<in> set (mwst_steps base names)"
  then show "returned_before z FinishUpgrade tr'"
    unfolding run_mwst_def
    by (intro finish_after_steps [where steps = "mwst_steps base names"])
      (auto simp: mwst_steps_facts)
next
  assume a: "run_mwst raises base names = (ok', tr') \<and> y \<in> set (mwst_steps base names)
        \<and> (y, False) \<in> set tr'"
  have "FinishUpgrade \<notin> fst ` set tr' \<and> Close \<in> fst ` set tr' \<and> \<not> ok'
         \<and> set (map ConvertItems names) \<inter> fst ` set tr'
             \<subseteq> set [Connect] \<union> set (mwst_steps base names) \<union> {Close}"
    using a unfolding run_mwst_def
    by (intro no_finish_after_failure [where x = y]) (auto simp: mwst_steps_def)
  then have f: "FinishUpgrade \<notin> fst ` set tr'" "Close \<in> fst ` set tr'" "\<not> ok'"
    and c: "\<forall>m \<in> set names. ConvertItems m \<notin> fst ` set tr'"
    by (auto simp: mwst_steps_def)
  from f show "FinishUpgrade \<notin> fst ` set tr'" "Close \<in> fst ` set tr'" "\<not> ok'" .
  fix m
  show "ConvertItems m \<notin> fst ` set tr'"
  proof
    assume m: "ConvertItems m \<in> fst ` set tr'"
    have "(FinishUpgrade, True) \<in> set tr'"
      using a m unfolding run_mwst_def
      by (intro convert_after_close [where steps = "mwst_steps base names"
            and y = "ConvertItems m", THEN conjunct2, THEN conjunct2, THEN conjunct1])
        (auto simp: mwst_steps_facts)
    with f(1) show False by force
  qed
next
  assume a: "run_mwst raises base names = (ok', tr') \<and> ConvertItems n \<in> fst ` set tr'"
  have "returned_before Close (ConvertItems n) tr'
      \<and> returned_before FinishUpgrade (ConvertItems n) tr'
      \<and> (FinishUpgrade, True) \<in> set tr' \<and> (Close, True) \<in> set tr'"
    using a unfolding run_mwst_def
    by (intro convert_after_close [where steps = "mwst_steps base names"])
      (auto simp: mwst_steps_facts)
  then show "returned_before Close (ConvertItems n) tr'"
    "returned_before FinishUpgrade (ConvertItems n) tr'"
    by simp_all
qed


theorem finish_upgrade_only_after_success_witness:
  "run_dbpw (\<lambda>tr x. False) ''alice''
     = (True, returned ([Connect, GetWallet ''alice''] @ dbpw_steps ''alice''
                 @ [FinishUpgrade, Close, ConvertItems ''alice'']))
   \<and> UpdateItems ''alice'' \<in> set (dbpw_steps ''alice'')
   \<and> returned_before (UpdateItems ''alice'') FinishUpgrade
        (snd (run_dbpw (\<lambda>tr x. False) ''alice''))
   \<and> returned_before Close (ConvertItems ''alice'') (snd (run_dbpw (\<lambda>tr x. False) ''alice''))
   \<and> run_dbpw (\<lambda>tr x. x = UpdateItems ''alice'') ''alice''
     = (False, returned [Connect, GetWallet ''alice'', PreUpgrade, FetchIndyKey ''alice'',
                  CreateConfig ''alice'', InitProfile ''alice'' ''alice'']
               @ [(UpdateItems ''alice'', False), (Close, True)])
   \<and> FinishUpgrade \<notin> fst ` set (snd (run_dbpw (\<lambda>tr x. x = UpdateItems ''alice'') ''alice''))
   \<and> Close \<in> fst ` set (snd (run_dbpw (\<lambda>tr x. x = UpdateItems ''alice'') ''alice''))
   \<and> run_mwst (\<lambda>tr x. False) ''base'' [''base'', ''bob'']
     = (True, returned ([Connect] @ mwst_steps ''base'' [''base'', ''bob'']
                 @ [FinishUpgrade, Close, ConvertItems ''base'', ConvertItems ''bob'']))
   \<and> returned_before (UpdateItems ''bob'') FinishUpgrade
        (snd (run_mwst (\<lambda>tr x. False) ''base'' [''base'', ''bob'']))
   \<and> returned_before Close (ConvertItems ''bob'')
        (snd (run_mwst (\<lambda>tr x. False) ''base'' [''base'', ''bob'']))
   \<and> UpdateItems ''bob'' \<in> set (mwst_steps ''base'' [''base'', ''bob''])
   \<and> snd (run_mwst (\<lambda>tr x. x = UpdateItems ''bob'') ''base'' [''base'', ''bob''])
     = returned [Connect, PreUpgrade, GetWallet ''base'', FetchIndyKey ''base'',
                  CreateConfig ''base'', GetWallet ''base'', FetchIndyKey ''base'',
                  InitProfile ''base'' ''base'', UpdateItems ''base'', GetWallet ''bob'',
                  FetchIndyKey ''bob'', InitProfile ''bob'' ''base'']
               @ [(UpdateItems ''bob'', False), (Close, True)]
   \<and> FinishUpgrade
        \<notin> fst ` set (snd (run_mwst (\<lambda>tr x. x = UpdateItems ''bob'') ''base'' [''base'', ''bob'']))"
proof -
  define good where "good = run_dbpw (\<lambda>tr x. False) ''alice''"
  define bad where "bad = run_dbpw (\<lambda>tr x. x = UpdateItems ''alice'') ''alice''"
  define mgood where "mgood = run_mwst (\<lambda>tr x. False) ''base'' [''base'', ''bob'']"
  define mbad where
    "mbad = run_mwst (\<lambda>tr x. x = UpdateItems ''bob'') ''base'' [''base'', ''bob'']"
  have good: "good = (True, returned ([Connect, GetWallet ''alice''] @ dbpw_steps ''alice''
                 @ [FinishUpgrade, Close, ConvertItems ''alice'']))"
    by (simp add: good_def run_dbpw_def run_sequence_def try_finally_def call_def dbpw_steps_def)
  have bad: "bad = (False, returned [Connect, GetWallet ''alice'', PreUpgrade,
                  FetchIndyKey ''alice'', CreateConfig ''alice'', InitProfile ''alice'' ''alice'']
               @ [(UpdateItems ''alice'', False), (Close, True)])"
    by (simp add: bad_def run_dbpw_def run_sequence_def try_finally_def call_def dbpw_steps_def)
  have mgood: "mgood = (True, returned ([Connect] @ mwst_steps ''base'' [''base'', ''bob'']
                 @ [FinishUpgrade, Close, ConvertItems ''base'', ConvertItems ''bob'']))"
    by (simp add: mgood_def run_mwst_def run_sequence_def try_finally_def call_def mwst_steps_def)
  have mbad: "mbad = (False, returned [Connect, PreUpgrade, GetWallet ''base'',
                  FetchIndyKey ''base'', CreateConfig ''base'', GetWallet ''base'',
                  FetchIndyKey ''base'', InitProfile ''base'' ''base'', UpdateItems ''base'',
                  GetWallet ''bob'', FetchIndyKey ''bob'', InitProfile ''bob'' ''base'']
               @ [(UpdateItems ''bob'', False), (Close, True)])"
    by (simp add: mbad_def run_mwst_def run_sequence_def try_finally_def call_def mwst_steps_def)
  have s1: "UpdateItems ''alice'' \<in> set (dbpw_steps ''alice'')"
    by (simp add: dbpw_steps_def)
  have s2: "UpdateItems ''bob'' \<in> set (mwst_steps ''base'' [''base'', ''bob''])"
    by (simp add: mwst_steps_def)
  have g1: "FinishUpgrade \<in> fst ` set (snd good)" "ConvertItems ''alice'' \<in> fst ` set (snd good)"
    by (simp_all add: good image_Un)
  have g2: "FinishUpgrade \<in> fst ` set (snd mgood)" "ConvertItems ''bob'' \<in> fst ` set (snd mgood)"
    by (simp_all add: mgood image_Un)
  have b1: "(UpdateItems ''alice'', False) \<in> set (snd bad)"
    by (simp add: bad)
  have b2: "(UpdateItems ''bob'', False) \<in> set (snd mbad)"
    by (simp add: mbad)
  from finish_upgrade_only_after_success [where raises = "\<lambda>tr x. False" and name = "''alice''"
      and ok = "fst good" and tr = "snd good" and n = "''alice''"]
    g1 s1
  have c1: "returned_before (UpdateItems ''alice'') FinishUpgrade (snd good)"
    "returned_before Close (ConvertItems ''alice'') (snd good)"
    unfolding good_def by auto
  from finish_upgrade_only_after_success [where raises = "\<lambda>tr x. x = UpdateItems ''alice''"
      and name = "''alice''" and ok = "fst bad" and tr = "snd bad"
      and x = "UpdateItems ''alice''"] b1 s1
  have c2: "FinishUpgrade \<notin> fst ` set (snd bad)" "Close \<in> fst ` set (snd bad)"
    unfolding bad_def by auto
  from finish_upgrade_only_after_success [where raises = "\<lambda>tr x. False" and base = "''base''"
      and names = "[''base'', ''bob'']" and ok' = "fst mgood" and tr' = "snd mgood"
      and n = "''bob''"] g2 s2
  have c3: "returned_before (UpdateItems ''bob'') FinishUpgrade (snd mgood)"
    "returned_before Close (ConvertItems ''bob'') (snd mgood)"
    unfolding mgood_def by auto
  from finish_upgrade_only_after_success [where raises = "\<lambda>tr x. x = UpdateItems ''bob''"
      and base = "''base''" and names = "[''base'', ''bob'']" and ok' = "fst mbad"
      and tr' = "snd mbad" and y = "UpdateItems ''bob''"] b2 s2
  have c4: "FinishUpgrade \<notin> fst ` set (snd mbad)"
    unfolding mbad_def by auto
  from good bad mgood mbad s1 s2 c1 c2 c3 c4 show ?thesis
    unfolding good_def bad_def mgood_def mbad_def by simp
qed

lemma count_returned:
  "length (filter (\<lambda>(x, r). x = c) (returned xs)) = count_list xs c"
  by (induction xs) auto

lemma split_subset:
  "body = done @ y # rest \<Longrightarrow> set done \<subseteq> set body \<and> y \<in> set body"
  by auto

lemma run_sequence_order:
  assumes run: "run_sequence raises before body after = (ok, tr)"
    and ab: "a \<noteq> b" and p: "precedes a b (before @ body)"
    and ba: "b \<notin> set after" and bc: "b \<noteq> Close"
  shows "returned_before a b tr"
  using run_sequence_shape [OF run]
proof (elim disjE conjE exE)
  fix "done" y rest
  assume "before = done @ y # rest" "tr = returned done @ [(y, False)]"
  with p precedes_returned_before(2) [OF ab, of "[]" "done" y "rest @ body" False]
  show ?thesis by simp
next
  fix "done" y rest c
  assume "body = done @ y # rest"
    "tr = returned before @ returned done @ [(y, False), (Close, c)]"
  with p precedes_returned_before(2) [OF ab, of "[(Close, c)]" "before @ done" y rest False] bc
  show ?thesis by simp
next
  assume "tr = returned before @ returned body @ [(Close, False)]"
  with p precedes_returned_before(1) [OF ab, of "[(Close, False)]" "before @ body"] bc
  show ?thesis by simp
next
  fix "done" y rest
  assume "after = done @ y # rest"
    "tr = returned before @ returned body @ [(Close, True)] @ returned done @ [(y, False)]"
  with p ba bc
    precedes_returned_before(1) [OF ab,
      of "[(Close, True)] @ returned done @ [(y, False)]" "before @ body"]
  show ?thesis by auto
next
  assume "tr = returned before @ returned body @ [(Close, True)] @ returned after"
  with p ba bc
    precedes_returned_before(1) [OF ab, of "[(Close, True)] @ returned after" "before @ body"]
  show ?thesis by auto
qed

lemma run_sequence_ops:
  assumes "run_sequence raises before body after = (ok, tr)"
  shows "fst ` set tr \<subseteq> set before \<union> set body \<union> {Close} \<union> set after"
  using run_sequence_shape [OF assms]
  by (elim disjE conjE exE) (auto simp: image_Un dest: split_subset)

lemma run_sequence_count:
  assumes "run_sequence raises before body after = (ok, tr)" and "c \<noteq> Close"
  shows "length (filter (\<lambda>(x, r). x = c) tr) \<le> count_list (before @ body @ after) c"
  using run_sequence_shape [OF assms(1)]
proof (elim disjE conjE exE)
  fix "done" y rest
  assume "before = done @ y # rest" "tr = returned done @ [(y, False)]"
  then show ?thesis by (auto simp: count_returned)
next
  fix "done" y rest c'
  assume "body = done @ y # rest"
    "tr = returned before @ returned done @ [(y, False), (Close, c')]"
  with assms(2) show ?thesis by (auto simp: count_returned)
next
  assume "tr = returned before @ returned body @ [(Close, False)]"
  with assms(2) show ?thesis by (auto simp: count_returned)
next
  fix "done" y rest
  assume "after = done @ y # rest"
    "tr = returned before @ returned body @ [(Close, True)] @ returned done @ [(y, False)]"
  with assms(2) show ?thesis by (auto simp: count_returned)
next
  assume "tr = returned before @ returned body @ [(Close, True)] @ returned after"
  with assms(2) show ?thesis by (auto simp: count_returned)
qed

section \<open>Building and persisting the profile key\<close>

lemma mwst_precedes:
  "precedes (InitProfile n base) (UpdateItems n)
     (concat (map (\<lambda>wallet_name.
          [GetWallet wallet_name, FetchIndyKey wallet_name,
           InitProfile wallet_name base, UpdateItems wallet_name]) names) @ rest)
   = (if n \<in> set names then True else precedes (InitProfile n base) (UpdateItems n) rest)"
  by (induction names) auto

lemma mwst_count:
  "count_list (concat (map (\<lambda>wallet_name.
          [GetWallet wallet_name, FetchIndyKey wallet_name,
           InitProfile wallet_name base, UpdateItems wallet_name]) names)) (InitProfile n base)
   = count_list names n"
  by (induction names) auto

lemma distinct_count_le: "distinct xs \<Longrightarrow> count_list xs x \<le> 1"
  by (induction xs) auto

lemma init_profile_result:
  assumes "init_profile P cbor_dumps w name ik e = Inr (pk, w', e')"
  shows "pk = build_profile_key ik
     \<and> (\<exists>ct. aead_encrypt P (cbor_dumps pk) (map e [0..<12]) (ik_master ik) = Inr ct
           \<and> profiles w' = profiles w @ [(name, map e [0..<12] @ ct)])
     \<and> pending w' = pending w \<and> written w' = written w"
  using assms
  by (auto simp: init_profile_def encrypt_merged_def urandom_def insert_profile_def
      CHACHAPOLY_NONCE_LEN_def Let_def split: sum.splits)

lemma mwst_init_profile_result:
  assumes "mwst_init_profile P cbor_dumps w name base_ik ik e = Inr (pk, w', e')"
  shows "pk = build_profile_key ik
     \<and> (\<exists>ct. aead_encrypt P (cbor_dumps pk) (map e [0..<12]) (ik_master base_ik) = Inr ct
           \<and> profiles w' = profiles w @ [(name, map e [0..<12] @ ct)])
     \<and> pending w' = pending w \<and> written w' = written w"
  using assms
  by (auto simp: mwst_init_profile_def encrypt_merged_def urandom_def insert_profile_def
      CHACHAPOLY_NONCE_LEN_def Let_def split: sum.splits)

lemma returned_before_called:
  "returned_before a b tr \<Longrightarrow> b \<in> fst ` set tr \<Longrightarrow> (a, True) \<in> set tr"
  by (induction tr) (force split: if_splits)+

lemma called_count:
  "(a, r) \<in> set tr \<Longrightarrow> 1 \<le> length (filter (\<lambda>(x, r). x = a) tr)"
  by (induction tr) auto

lemma run_sequence_ok:
  assumes "run_sequence raises before body after = (True, tr)"
  shows "tr = returned (before @ body @ [Close] @ after)"
  using run_sequence_shape [OF assms] by auto

lemma dbpw_once:
  assumes run: "run_dbpw raises name = (ok, tr)" and u: "UpdateItems name \<in> fst ` set tr"
  shows "(InitProfile name name, True) \<in> set tr
       \<and> length (filter (\<lambda>(x, r). x = InitProfile name name) tr) = 1"
proof -
  from run have seq: "run_sequence raises [Connect, GetWallet name]
       (dbpw_steps name @ [FinishUpgrade]) [ConvertItems name] = (ok, tr)"
    by (simp add: run_dbpw_def)
  have "returned_before (InitProfile name name) (UpdateItems name) tr"
    using seq by (rule run_sequence_order) (simp_all add: dbpw_steps_def)
  then have m: "(InitProfile name name, True) \<in> set tr"
    using u by (rule returned_before_called)
  have "length (filter (\<lambda>(x, r). x = InitProfile name name) tr)
          \<le> count_list ([Connect, GetWallet name] @ (dbpw_steps name @ [FinishUpgrade])
                @ [ConvertItems name]) (InitProfile name name)"
    using seq by (rule run_sequence_count) simp
  then have "length (filter (\<lambda>(x, r). x = InitProfile name name) tr) \<le> 1"
    by (simp add: dbpw_steps_def)
  with called_count [OF m] m show ?thesis by simp
qed

lemma dbpw_ok:
  assumes run: "run_dbpw raises name = (True, tr)"
  shows "tr = returned ([Connect, GetWallet name] @ dbpw_steps name
                 @ [FinishUpgrade, Close, ConvertItems name])"
  using run_sequence_ok [of raises "[Connect, GetWallet name]"
      "dbpw_steps name @ [FinishUpgrade]" "[ConvertItems name]" tr] run
  by (simp add: run_dbpw_def)

lemma mwst_ok:
  assumes run: "run_mwst raises base names = (True, tr)"
  shows "tr = returned ([Connect] @ mwst_steps base names
                 @ [FinishUpgrade, Close] @ map ConvertItems names)"
  using run_sequence_ok [of raises "[Connect]"
      "mwst_steps base names @ [FinishUpgrade]" "map ConvertItems names" tr] run
  by (simp add: run_mwst_def)

lemma mwst_once:
  assumes run: "run_mwst raises base names = (ok, tr)" and d: "distinct names"
    and u: "UpdateItems n \<in> fst ` set tr"
  shows "(InitProfile n base, True) \<in> set tr
       \<and> length (filter (\<lambda>(x, r). x = InitProfile n base) tr) = 1"
proof -
  from run have seq: "run_sequence raises [Connect]
       (mwst_steps base names @ [FinishUpgrade]) (map ConvertItems names) = (ok, tr)"
    by (simp add: run_mwst_def)
  have "returned_before (InitProfile n base) (UpdateItems n) tr"
    using seq
  proof (rule run_sequence_order)
    show "precedes (InitProfile n base) (UpdateItems n)
            ([Connect] @ mwst_steps base names @ [FinishUpgrade])"
      by (simp add: mwst_steps_def mwst_precedes)
  qed auto
  then have m: "(InitProfile n base, True) \<in> set tr"
    using u by (rule returned_before_called)
  have "length (filter (\<lambda>(x, r). x = InitProfile n base) tr)
          \<le> count_list ([Connect] @ (mwst_steps base names @ [FinishUpgrade])
                @ map ConvertItems names) (InitProfile n base)"
    using seq by (rule run_sequence_count) simp
  also have "\<dots> = count_list names n + count_list (map ConvertItems names) (InitProfile n base)"
    by (simp add: mwst_steps_def mwst_count)
  also have "count_list (map ConvertItems names) (InitProfile n base) = 0"
    by (induction names) auto
  finally have "length (filter (\<lambda>(x, r). x = InitProfile n base) tr) \<le> 1"
    using distinct_count_le [OF d, of n] by simp
  with called_count [OF m] m show ?thesis by simp
qed

lemma mwst_steps_update: "n \<in> set names \<Longrightarrow> UpdateItems n \<in> set (mwst_steps base names)"
  by (auto simp: mwst_steps_def)

lemma mwst_update_named:
  assumes run: "run_mwst raises base names = (ok, tr)" and u: "UpdateItems n \<in> fst ` set tr"
  shows "n \<in> set names"
proof -
  from run have seq: "run_sequence raises [Connect]
       (mwst_steps base names @ [FinishUpgrade]) (map ConvertItems names) = (ok, tr)"
    by (simp add: run_mwst_def)
  with run_sequence_ops [OF seq] u have "UpdateItems n \<in> set (mwst_steps base names)"
    by auto
  then show ?thesis by (auto simp: mwst_steps_def)
qed

lemma update_items_frame:
  "update_items P ik pk w e = (res, w', e') \<Longrightarrow> profiles w' = profiles w \<and> is_pg w' = is_pg w"
proof (induction P ik pk w e rule: update_items.induct)
  case (1 P ik pk w e)
  show ?case
  proof (cases "fetch_pending_items 1 w = []")
    case True
    with "1.prems" show ?thesis by (simp add: update_items.simps [of P ik pk w e])
  next
    case False
    show ?thesis
    proof (cases "update_rows P ik pk (is_pg w) (fetch_pending_items 1 w) e")
      case (Inl err)
      with False "1.prems" show ?thesis by (simp add: update_items.simps [of P ik pk w e])
    next
      case (Inr p)
      obtain upd e1 where p: "p = (upd, e1)" by (cases p)
      with Inr False "1.prems" have
        rest: "update_items P ik pk (wallet_update_items upd w) e1 = (res, w', e')"
        by (simp add: update_items.simps [of P ik pk w e])
      from "1.IH" [OF False Inr [unfolded p] refl rest] show ?thesis
        by (simp add: wallet_update_items_def)
    qed
  qed
qed

lemma dbpw_rekey_wallet_profiles:
  assumes "dbpw_rekey_wallet P cbor_dumps w name ik e = (res, w2, e2)"
  shows "profiles w2 = profiles w \<or> (\<exists>enc. profiles w2 = profiles w @ [(name, enc)])"
proof (cases "init_profile P cbor_dumps w name ik e")
  case (Inl err)
  with assms show ?thesis by (simp add: dbpw_rekey_wallet_def)
next
  case (Inr p)
  obtain pk w1 e1 where p: "p = (pk, w1, e1)" by (cases p)
  with Inr assms have "update_items P ik pk w1 e1 = (res, w2, e2)"
    by (simp add: dbpw_rekey_wallet_def)
  then have "profiles w2 = profiles w1" using update_items_frame by blast
  with init_profile_result [OF Inr [unfolded p]] show ?thesis by auto
qed

lemma dbpw_rekey_wallet_completed:
  assumes "dbpw_rekey_wallet P cbor_dumps w name ik e = (None, w2, e2)"
  shows "\<exists>w1 e1 ct.
           init_profile P cbor_dumps w name ik e = Inr (build_profile_key ik, w1, e1)
         \<and> aead_encrypt P (cbor_dumps (build_profile_key ik)) (map e [0..<12]) (ik_master ik)
             = Inr ct
         \<and> profiles w1 = profiles w @ [(name, map e [0..<12] @ ct)]
         \<and> pending w1 = pending w \<and> written w1 = written w
         \<and> update_items P ik (build_profile_key ik) w1 e1 = (None, w2, e2)
         \<and> profiles w2 = profiles w @ [(name, map e [0..<12] @ ct)]"
proof (cases "init_profile P cbor_dumps w name ik e")
  case (Inl err)
  with assms show ?thesis by (simp add: dbpw_rekey_wallet_def)
next
  case (Inr p)
  obtain pk w1 e1 where p: "p = (pk, w1, e1)" by (cases p)
  with Inr assms have u: "update_items P ik pk w1 e1 = (None, w2, e2)"
    by (simp add: dbpw_rekey_wallet_def)
  then have f: "profiles w2 = profiles w1" using update_items_frame by blast
  from init_profile_result [OF Inr [unfolded p]] obtain ct where
    r: "pk = build_profile_key ik"
      "aead_encrypt P (cbor_dumps pk) (map e [0..<12]) (ik_master ik) = Inr ct"
      "profiles w1 = profiles w @ [(name, map e [0..<12] @ ct)]"
      "pending w1 = pending w" "written w1 = written w"
    by blast
  with Inr p u f show ?thesis by auto
qed

lemma mwst_rekey_wallet_profiles:
  assumes "mwst_rekey_wallet P cbor_dumps w name base_ik ik e = (res, w2, e2)"
  shows "profiles w2 = profiles w \<or> (\<exists>enc. profiles w2 = profiles w @ [(name, enc)])"
proof (cases "mwst_init_profile P cbor_dumps w name base_ik ik e")
  case (Inl err)
  with assms show ?thesis by (simp add: mwst_rekey_wallet_def)
next
  case (Inr p)
  obtain pk w1 e1 where p: "p = (pk, w1, e1)" by (cases p)
  with Inr assms have "update_items P ik pk w1 e1 = (res, w2, e2)"
    by (simp add: mwst_rekey_wallet_def)
  then have "profiles w2 = profiles w1" using update_items_frame by blast
  with mwst_init_profile_result [OF Inr [unfolded p]] show ?thesis by auto
qed

lemma mwst_rekey_wallet_completed:
  assumes "mwst_rekey_wallet P cbor_dumps w name base_ik ik e = (None, w2, e2)"
  shows "\<exists>w1 e1 ct.
           mwst_init_profile P cbor_dumps w name base_ik ik e
             = Inr (build_profile_key ik, w1, e1)
         \<and> aead_encrypt P (cbor_dumps (build_profile_key ik)) (map e [0..<12])
               (ik_master base_ik)
             = Inr ct
         \<and> profiles w1 = profiles w @ [(name, map e [0..<12] @ ct)]
         \<and> pending w1 = pending w \<and> written w1 = written w
         \<and> update_items P ik (build_profile_key ik) w1 e1 = (None, w2, e2)
         \<and> profiles w2 = profiles w @ [(name, map e [0..<12] @ ct)]"
proof (cases "mwst_init_profile P cbor_dumps w name base_ik ik e")
  case (Inl err)
  with assms show ?thesis by (simp add: mwst_rekey_wallet_def)
next
  case (Inr p)
  obtain pk w1 e1 where p: "p = (pk, w1, e1)" by (cases p)
  with Inr assms have u: "update_items P ik pk w1 e1 = (None, w2, e2)"
    by (simp add: mwst_rekey_wallet_def)
  then have f: "profiles w2 = profiles w1" using update_items_frame by blast
  from mwst_init_profile_result [OF Inr [unfolded p]] obtain ct where
    r: "pk = build_profile_key ik"
      "aead_encrypt P (cbor_dumps pk) (map e [0..<12]) (ik_master base_ik) = Inr ct"
      "profiles w1 = profiles w @ [(name, map e [0..<12] @ ct)]"
      "pending w1 = pending w" "written w1 = written w"
    by blast
  with Inr p u f show ?thesis by auto
qed

text \<open>
  Claim C9. The profile key built from a key bundle has the version \<^verbatim>\<open>"1"\<close> and
  the bundle's type (category), name, item-HMAC, tag-name, tag-value and tag-HMAC keys,
  unchanged. \<open>init_profile\<close> serialises it, encrypts the serialisation with the AEAD
  primitive under the master key of the wallet's own bundle, with a 12-byte random
  nonce, and appends exactly one profile, under the given name, to the wallet;
  \<open>mwst_init_profile\<close> does the same under the master key of the base wallet's bundle.
  In a run of the single-wallet strategy \<^verbatim>\<open>init_profile\<close> is called at most once, with
  the wallet's own bundle, and \<^verbatim>\<open>update_items\<close> is not called before it has returned;
  in a run of the profiles strategy every call of \<^verbatim>\<open>init_profile\<close> is for one of the
  wallets with the base wallet's bundle, at most once per wallet, and \<^verbatim>\<open>update_items\<close>
  for a wallet is not called before \<^verbatim>\<open>init_profile\<close> for that wallet has returned.
  Whenever \<^verbatim>\<open>update_items\<close> for a wallet is called in a run of either strategy,
  \<^verbatim>\<open>init_profile\<close> for that wallet has been called exactly once in the run and has
  returned. A run that completes is the whole sequence of calls: for the wallet, or for
  each of the wallets, \<^verbatim>\<open>init_profile\<close> is called exactly once and returns, and
  \<^verbatim>\<open>update_items\<close> is called after it. The wallet names of the profiles strategy are
  the keys of a dictionary, hence distinct. On the state of a wallet: when
  \<^verbatim>\<open>init_profile\<close> followed by \<^verbatim>\<open>update_items\<close> completes, the profile was
  appended before the loop started, on a wallet whose pending rows and written batches
  were still those of the start, and the loop ran with the profile key just built and
  left the profiles alone, so that the wallet ends with exactly one profile more; when
  the two statements end with an exception, the wallet has that one profile more or none.
\<close>

theorem profile_key_built_and_persisted:
  "build_profile_key ik
     = \<lparr> ver = ''1'', ick = ik_type ik, ink = ik_name ik, ihk = ik_item_hmac ik,
         tnk = ik_tag_name ik, tvk = ik_tag_value ik, thk = ik_tag_hmac ik \<rparr>
   \<and> (init_profile P cbor_dumps w name ik e = Inr (pk, w', e') \<longrightarrow>
        pk = build_profile_key ik
      \<and> (\<exists>ct. aead_encrypt P (cbor_dumps pk) (map e [0..<12]) (ik_master ik) = Inr ct
            \<and> profiles w' = profiles w @ [(name, map e [0..<12] @ ct)])
      \<and> pending w' = pending w \<and> written w' = written w)
   \<and> (mwst_init_profile P cbor_dumps w name base_ik ik e = Inr (pk, w', e') \<longrightarrow>
        pk = build_profile_key ik
      \<and> (\<exists>ct. aead_encrypt P (cbor_dumps pk) (map e [0..<12]) (ik_master base_ik) = Inr ct
            \<and> profiles w' = profiles w @ [(name, map e [0..<12] @ ct)])
      \<and> pending w' = pending w \<and> written w' = written w)
   \<and> (run_dbpw raises name = (ok, tr) \<longrightarrow>
        returned_before (InitProfile name name) (UpdateItems name) tr
      \<and> length (filter (\<lambda>(x, r). x = InitProfile name name) tr) \<le> 1
      \<and> (\<forall>n k. InitProfile n k \<in> fst ` set tr \<longrightarrow> n = name \<and> k = name))
   \<and> (run_mwst raises base names = (ok, tr) \<longrightarrow>
        (\<forall>n. returned_before (InitProfile n base) (UpdateItems n) tr)
      \<and> (\<forall>n k. InitProfile n k \<in> fst ` set tr \<longrightarrow> n \<in> set names \<and> k = base)
      \<and> (distinct names \<longrightarrow>
           (\<forall>n. length (filter (\<lambda>(x, r). x = InitProfile n base) tr) \<le> 1)))
   \<and> (run_dbpw raises name = (ok, tr) \<and> UpdateItems name \<in> fst ` set tr \<longrightarrow>
        (InitProfile name name, True) \<in> set tr
      \<and> length (filter (\<lambda>(x, r). x = InitProfile name name) tr) = 1)
   \<and> (run_dbpw raises name = (True, tr) \<longrightarrow>
        tr = returned ([Connect, GetWallet name] @ dbpw_steps name
                 @ [FinishUpgrade, Close, ConvertItems name])
      \<and> UpdateItems name \<in> fst ` set tr
      \<and> (InitProfile name name, True) \<in> set tr
      \<and> length (filter (\<lambda>(x, r). x = InitProfile name name) tr) = 1)
   \<and> (run_mwst raises base names = (ok, tr) \<and> distinct names
        \<and> UpdateItems m \<in> fst ` set tr \<longrightarrow>
        m \<in> set names
      \<and> (InitProfile m base, True) \<in> set tr
      \<and> length (filter (\<lambda>(x, r). x = InitProfile m base) tr) = 1)
   \<and> (run_mwst raises base names = (True, tr) \<and> distinct names \<and> m \<in> set names \<longrightarrow>
        tr = returned ([Connect] @ mwst_steps base names
                 @ [FinishUpgrade, Close] @ map ConvertItems names)
      \<and> UpdateItems m \<in> fst ` set tr
      \<and> (InitProfile m base, True) \<in> set tr
      \<and> length (filter (\<lambda>(x, r). x = InitProfile m base) tr) = 1)
   \<and> (dbpw_rekey_wallet P cbor_dumps w name ik e = (res, w2, e2) \<longrightarrow>
        profiles w2 = profiles w \<or> (\<exists>enc. profiles w2 = profiles w @ [(name, enc)]))
   \<and> (dbpw_rekey_wallet P cbor_dumps w name ik e = (None, w2, e2) \<longrightarrow>
        (\<exists>w1 e1 ct.
           init_profile P cbor_dumps w name ik e = Inr (build_profile_key ik, w1, e1)
         \<and> aead_encrypt P (cbor_dumps (build_profile_key ik)) (map e [0..<12]) (ik_master ik)
             = Inr ct
         \<and> profiles w1 = profiles w @ [(name, map e [0..<12] @ ct)]
         \<and> pending w1 = pending w \<and> written w1 = written w
         \<and> update_items P ik (build_profile_key ik) w1 e1 = (None, w2, e2)
         \<and> profiles w2 = profiles w @ [(name, map e [0..<12] @ ct)]))
   \<and> (mwst_rekey_wallet P cbor_dumps w name base_ik ik e = (res, w2, e2) \<longrightarrow>
        profiles w2 = profiles w \<or> (\<exists>enc. profiles w2 = profiles w @ [(name, enc)]))
   \<and> (mwst_rekey_wallet P cbor_dumps w name base_ik ik e = (None, w2, e2) \<longrightarrow>
        (\<exists>w1 e1 ct.
           mwst_init_profile P cbor_dumps w name base_ik ik e
             = Inr (build_profile_key ik, w1, e1)
         \<and> aead_encrypt P (cbor_dumps (build_profile_key ik)) (map e [0..<12])
               (ik_master base_ik)
             = Inr ct
         \<and> profiles w1 = profiles w @ [(name, map e [0..<12] @ ct)]
         \<and> pending w1 = pending w \<and> written w1 = written w
         \<and> update_items P ik (build_profile_key ik) w1 e1 = (None, w2, e2)
         \<and> profiles w2 = profiles w @ [(name, map e [0..<12] @ ct)]))"
proof (intro conjI impI allI)
  show "build_profile_key ik
     = \<lparr> ver = ''1'', ick = ik_type ik, ink = ik_name ik, ihk = ik_item_hmac ik,
         tnk = ik_tag_name ik, tvk = ik_tag_value ik, thk = ik_tag_hmac ik \<rparr>"
    by (simp add: build_profile_key_def)
next
  assume a: "init_profile P cbor_dumps w name ik e = Inr (pk, w', e')"
  from init_profile_result [OF a]
  show "pk = build_profile_key ik"
    "\<exists>ct. aead_encrypt P (cbor_dumps pk) (map e [0..<12]) (ik_master ik) = Inr ct
            \<and> profiles w' = profiles w @ [(name, map e [0..<12] @ ct)]"
    "pending w' = pending w" "written w' = written w"
    by blast+
next
  assume a: "mwst_init_profile P cbor_dumps w name base_ik ik e = Inr (pk, w', e')"
  from mwst_init_profile_result [OF a]
  show "pk = build_profile_key ik"
    "\<exists>ct. aead_encrypt P (cbor_dumps pk) (map e [0..<12]) (ik_master base_ik) = Inr ct
            \<and> profiles w' = profiles w @ [(name, map e [0..<12] @ ct)]"
    "pending w' = pending w" "written w' = written w"
    by blast+
next
  assume run: "run_dbpw raises name = (ok, tr)"
  then have seq: "run_sequence raises [Connect, GetWallet name]
       (dbpw_steps name @ [FinishUpgrade]) [ConvertItems name] = (ok, tr)"
    by (simp add: run_dbpw_def)
  show "returned_before (InitProfile name name) (UpdateItems name) tr"
    using seq by (rule run_sequence_order) (simp_all add: dbpw_steps_def)
  have "length (filter (\<lambda>(x, r). x = InitProfile name name) tr)
          \<le> count_list ([Connect, GetWallet name] @ (dbpw_steps name @ [FinishUpgrade])
                @ [ConvertItems name]) (InitProfile name name)"
    using seq by (rule run_sequence_count) simp
  then show "length (filter (\<lambda>(x, r). x = InitProfile name name) tr) \<le> 1"
    by (simp add: dbpw_steps_def)
  fix n k
  assume "InitProfile n k \<in> fst ` set tr"
  with run_sequence_ops [OF seq] have "InitProfile n k \<in> set (dbpw_steps name)"
    by auto
  then show "n = name" "k = name"
    by (simp_all add: dbpw_steps_def)
next
  assume run: "run_mwst raises base names = (ok, tr)"
  then have seq: "run_sequence raises [Connect]
       (mwst_steps base names @ [FinishUpgrade]) (map ConvertItems names) = (ok, tr)"
    by (simp add: run_mwst_def)
  fix n
  show "returned_before (InitProfile n base) (UpdateItems n) tr"
    using seq
  proof (rule run_sequence_order)
    show "precedes (InitProfile n base) (UpdateItems n)
            ([Connect] @ mwst_steps base names @ [FinishUpgrade])"
      by (simp add: mwst_steps_def mwst_precedes)
  qed auto
  fix k
  assume "InitProfile n k \<in> fst ` set tr"
  with run_sequence_ops [OF seq] have "InitProfile n k \<in> set (mwst_steps base names)"
    by auto
  then show "n \<in> set names" "k = base"
    by (auto simp: mwst_steps_def)
next
  fix n
  assume run: "run_mwst raises base names = (ok, tr)" and d: "distinct names"
  then have seq: "run_sequence raises [Connect]
       (mwst_steps base names @ [FinishUpgrade]) (map ConvertItems names) = (ok, tr)"
    by (simp add: run_mwst_def)
  have "length (filter (\<lambda>(x, r). x = InitProfile n base) tr)
          \<le> count_list ([Connect] @ (mwst_steps base names @ [FinishUpgrade])
                @ map ConvertItems names) (InitProfile n base)"
    using seq by (rule run_sequence_count) simp
  also have "\<dots> = count_list names n + count_list (map ConvertItems names) (InitProfile n base)"
    by (simp add: mwst_steps_def mwst_count)
  also have "count_list (map ConvertItems names) (InitProfile n base) = 0"
    by (induction names) auto
  finally show "length (filter (\<lambda>(x, r). x = InitProfile n base) tr) \<le> 1"
    using distinct_count_le [OF d, of n] by simp
next
  assume "run_dbpw raises name = (ok, tr) \<and> UpdateItems name \<in> fst ` set tr"
  then have "(InitProfile name name, True) \<in> set tr
       \<and> length (filter (\<lambda>(x, r). x = InitProfile name name) tr) = 1"
    using dbpw_once by blast
  then show "(InitProfile name name, True) \<in> set tr"
    "length (filter (\<lambda>(x, r). x = InitProfile name name) tr) = 1"
    by simp_all
next
  assume run: "run_dbpw raises name = (True, tr)"
  then show tr: "tr = returned ([Connect, GetWallet name] @ dbpw_steps name
                 @ [FinishUpgrade, Close, ConvertItems name])"
    by (rule dbpw_ok)
  then show u: "UpdateItems name \<in> fst ` set tr"
    by (simp add: dbpw_steps_def)
  from dbpw_once [OF run u]
  show "(InitProfile name name, True) \<in> set tr"
    "length (filter (\<lambda>(x, r). x = InitProfile name name) tr) = 1"
    by simp_all
next
  assume a: "run_mwst raises base names = (ok, tr) \<and> distinct names
        \<and> UpdateItems m \<in> fst ` set tr"
  then show "m \<in> set names"
    using mwst_update_named by blast
  from a have "(InitProfile m base, True) \<in> set tr
       \<and> length (filter (\<lambda>(x, r). x = InitProfile m base) tr) = 1"
    using mwst_once by blast
  then show "(InitProfile m base, True) \<in> set tr"
    "length (filter (\<lambda>(x, r). x = InitProfile m base) tr) = 1"
    by simp_all
next
  assume a: "run_mwst raises base names = (True, tr) \<and> distinct names \<and> m \<in> set names"
  then have run: "run_mwst raises base names = (True, tr)" and d: "distinct names"
    and m: "m \<in> set names"
    by simp_all
  from run show tr: "tr = returned ([Connect] @ mwst_steps base names
                 @ [FinishUpgrade, Close] @ map ConvertItems names)"
    by (rule mwst_ok)
  with m show u: "UpdateItems m \<in> fst ` set tr"
    by (simp add: mwst_steps_update image_Un)
  from mwst_once [OF run d u]
  show "(InitProfile m base, True) \<in> set tr"
    "length (filter (\<lambda>(x, r). x = InitProfile m base) tr) = 1"
    by simp_all
next
  assume "dbpw_rekey_wallet P cbor_dumps w name ik e = (res, w2, e2)"
  then show "profiles w2 = profiles w \<or> (\<exists>enc. profiles w2 = profiles w @ [(name, enc)])"
    by (rule dbpw_rekey_wallet_profiles)
next
  assume "dbpw_rekey_wallet P cbor_dumps w name ik e = (None, w2, e2)"
  then show "\<exists>w1 e1 ct.
           init_profile P cbor_dumps w name ik e = Inr (build_profile_key ik, w1, e1)
         \<and> aead_encrypt P (cbor_dumps (build_profile_key ik)) (map e [0..<12]) (ik_master ik)
             = Inr ct
         \<and> profiles w1 = profiles w @ [(name, map e [0..<12] @ ct)]
         \<and> pending w1 = pending w \<and> written w1 = written w
         \<and> update_items P ik (build_profile_key ik) w1 e1 = (None, w2, e2)
         \<and> profiles w2 = profiles w @ [(name, map e [0..<12] @ ct)]"
    by (rule dbpw_rekey_wallet_completed)
next
  assume "mwst_rekey_wallet P cbor_dumps w name base_ik ik e = (res, w2, e2)"
  then show "profiles w2 = profiles w \<or> (\<exists>enc. profiles w2 = profiles w @ [(name, enc)])"
    by (rule mwst_rekey_wallet_profiles)
next
  assume "mwst_rekey_wallet P cbor_dumps w name base_ik ik e = (None, w2, e2)"
  then show "\<exists>w1 e1 ct.
           mwst_init_profile P cbor_dumps w name base_ik ik e
             = Inr (build_profile_key ik, w1, e1)
         \<and> aead_encrypt P (cbor_dumps (build_profile_key ik)) (map e [0..<12])
               (ik_master base_ik)
             = Inr ct
         \<and> profiles w1 = profiles w @ [(name, map e [0..<12] @ ct)]
         \<and> pending w1 = pending w \<and> written w1 = written w
         \<and> update_items P ik (build_profile_key ik) w1 e1 = (None, w2, e2)
         \<and> profiles w2 = profiles w @ [(name, map e [0..<12] @ ct)]"
    by (rule mwst_rekey_wallet_completed)
qed

text \<open>A wallet with one pending row and nothing written.\<close>

definition example_wallet :: wallet where
  "example_wallet = \<lparr> is_pg = False, pending = [example_row], written = [], profiles = [] \<rparr>"

text \<open>
  A stand-in for \<^verbatim>\<open>cbor2.dumps\<close> (the keys one after the other) and a base key bundle
  with a master key of its own, to run the model on.
\<close>

definition stub_cbor :: "profile_key \<Rightarrow> bytes" where
  "stub_cbor pk = ick pk @ ink pk @ ihk pk @ tnk pk @ tvk pk @ thk pk"

definition example_base_keys :: indy_key where
  "example_base_keys = example_keys \<lparr> ik_master := replicate 32 1 \<rparr>"

text \<open>
  The record written for \<open>example_row\<close> when the value nonce is the given 12 bytes,
  and the encrypted profile key of the example under a master key, with a nonce of
  twelve bytes 1.
\<close>

lemma example_build_profile_key: "build_profile_key example_keys = example_profile_key"
  by (simp add: build_profile_key_def example_keys_def example_profile_key_def)

definition example_written :: "bytes \<Rightarrow> upd_item" where
  "example_written nonce = \<lparr> upd_id = 1, upd_category = replicate 28 0,
     upd_name = replicate 28 0, upd_value = nonce @ replicate 16 0,
     upd_tags = [(1, replicate 28 0, TVStr ''a'')] \<rparr>"

lemma example_update_item_explicit:
  "update_item stub_prims
      \<lparr> item_id = 1, item_type = [], item_name = [], item_value = Some [],
        item_tags = [(1, [], TVStr ''a'')] \<rparr> example_profile_key e
     = Inr (example_written (map e [0..<12]), \<lambda>i. e (i + 12))"
  by (simp add: update_item_def example_profile_key_def example_written_def encrypt_merged_def
      encrypt_value_def to_bytes4_big_def hmac_new_def hasher_update_def hasher_digest_def
      stub_hmac_def stub_encrypt_def urandom_def CHACHAPOLY_NONCE_LEN_def
      replicate_add [symmetric] del: upt_rec_numeral)

definition example_profile :: "bytes \<Rightarrow> bytes" where
  "example_profile master = replicate 12 1 @ stub_cbor example_profile_key @ take 16 master"

lemma example_init_profile:
  "init_profile stub_prims stub_cbor example_wallet ''alice'' example_keys (\<lambda>_. 1)
     = Inr (example_profile_key,
            example_wallet \<lparr> profiles := [(''alice'', example_profile (replicate 32 0))] \<rparr>,
            \<lambda>_. 1)"
  by (simp add: init_profile_def example_build_profile_key encrypt_merged_def urandom_def
      stub_encrypt_def CHACHAPOLY_NONCE_LEN_def insert_profile_def example_profile_def
      map_replicate_const del: upt_rec_numeral)
    (simp add: example_keys_def example_wallet_def)

definition example_item :: item where
  "example_item = \<lparr> item_id = 1, item_type = [], item_name = [], item_value = Some [],
     item_tags = [(1, [], TVStr ''a'')] \<rparr>"

lemma example_item_decrypt:
  "decrypt_item stub_prims example_row example_keys False = Inr example_item"
  unfolding example_item_def by (rule example_decrypt_item)

lemma example_item_update:
  "update_item stub_prims example_item example_profile_key e
     = Inr (example_written (map e [0..<12]), \<lambda>i. e (i + 12))"
  unfolding example_item_def by (rule example_update_item_explicit)

lemma example_ids: "row_id example_row = 1" "upd_id (example_written nonce) = 1"
  by (simp_all add: example_row_def example_written_def)

lemma example_rekeyed:
  "update_items stub_prims example_keys example_profile_key
      (example_wallet \<lparr> profiles := ps \<rparr>) (\<lambda>_. 1)
     = (None, \<lparr> is_pg = False, pending = [], written = [[example_written (replicate 12 1)]],
                profiles = ps \<rparr>, \<lambda>_. 1)"
proof -
  define final where "final = \<lparr> is_pg = False, pending = [],
    written = [[example_written (replicate 12 1)]], profiles = ps \<rparr>"
  have "update_items stub_prims example_keys example_profile_key
          (example_wallet \<lparr> profiles := ps \<rparr>) (\<lambda>_. 1)
          = update_items stub_prims example_keys example_profile_key final (\<lambda>_. 1)"
    by (subst update_items.simps)
      (simp add: example_wallet_def final_def fetch_pending_items_def wallet_update_items_def
        example_item_decrypt example_item_update example_ids map_replicate_const
        del: upt_rec_numeral)
  also have "\<dots> = (None, final, \<lambda>_. 1)"
    by (subst update_items.simps) (simp add: final_def fetch_pending_items_def)
  finally show ?thesis by (simp add: final_def)
qed

lemma example_mwst_init_profile:
  "mwst_init_profile stub_prims stub_cbor example_wallet ''bob'' example_base_keys example_keys
      (\<lambda>_. 1)
     = Inr (example_profile_key,
            example_wallet \<lparr> profiles := [(''bob'', example_profile (replicate 32 1))] \<rparr>,
            \<lambda>_. 1)"
  by (simp add: mwst_init_profile_def example_build_profile_key encrypt_merged_def urandom_def
      stub_encrypt_def CHACHAPOLY_NONCE_LEN_def insert_profile_def example_profile_def
      example_base_keys_def map_replicate_const del: upt_rec_numeral)
    (simp add: example_keys_def example_wallet_def)

lemma example_dbpw_rekey:
  "dbpw_rekey_wallet stub_prims stub_cbor example_wallet ''alice'' example_keys (\<lambda>_. 1)
     = (None, \<lparr> is_pg = False, pending = [], written = [[example_written (replicate 12 1)]],
                profiles = [(''alice'', example_profile (replicate 32 0))] \<rparr>, \<lambda>_. 1)"
  by (simp add: dbpw_rekey_wallet_def example_init_profile example_rekeyed)

lemma example_mwst_rekey:
  "mwst_rekey_wallet stub_prims stub_cbor example_wallet ''bob'' example_base_keys example_keys
      (\<lambda>_. 1)
     = (None, \<lparr> is_pg = False, pending = [], written = [[example_written (replicate 12 1)]],
                profiles = [(''bob'', example_profile (replicate 32 1))] \<rparr>, \<lambda>_. 1)"
  by (simp add: mwst_rekey_wallet_def example_mwst_init_profile example_rekeyed)

theorem profile_key_built_and_persisted_witness:
  "(\<exists>pk w' e' ct.
       init_profile stub_prims stub_cbor example_wallet ''alice'' example_keys (\<lambda>_. 0)
         = Inr (pk, w', e')
     \<and> pk = build_profile_key example_keys
     \<and> aead_encrypt stub_prims (stub_cbor pk) (map (\<lambda>_. 0) [0..<12]) (ik_master example_keys)
         = Inr ct
     \<and> profiles w' = profiles example_wallet @ [(''alice'', map (\<lambda>_. 0) [0..<12] @ ct)])
   \<and> (\<exists>pk w' e' ct.
       mwst_init_profile stub_prims stub_cbor example_wallet ''bob'' example_base_keys
           example_keys (\<lambda>_. 0)
         = Inr (pk, w', e')
     \<and> pk = build_profile_key example_keys
     \<and> aead_encrypt stub_prims (stub_cbor pk) (map (\<lambda>_. 0) [0..<12])
           (ik_master example_base_keys)
         = Inr ct
     \<and> profiles w' = profiles example_wallet @ [(''bob'', map (\<lambda>_. 0) [0..<12] @ ct)])
   \<and> returned_before (InitProfile ''alice'' ''alice'') (UpdateItems ''alice'')
        (snd (run_dbpw (\<lambda>tr x. False) ''alice''))
   \<and> length (filter (\<lambda>(x, r). x = InitProfile ''alice'' ''alice'')
        (snd (run_dbpw (\<lambda>tr x. False) ''alice''))) \<le> 1
   \<and> returned_before (InitProfile ''bob'' ''base'') (UpdateItems ''bob'')
        (snd (run_mwst (\<lambda>tr x. False) ''base'' [''base'', ''bob'']))
   \<and> distinct [''base'', ''bob'']
   \<and> length (filter (\<lambda>(x, r). x = InitProfile ''bob'' ''base'')
        (snd (run_mwst (\<lambda>tr x. False) ''base'' [''base'', ''bob'']))) \<le> 1
   \<and> run_dbpw (\<lambda>tr x. False) ''alice''
     = (True, returned [Connect, GetWallet ''alice'', PreUpgrade, FetchIndyKey ''alice'',
                 CreateConfig ''alice'', InitProfile ''alice'' ''alice'', UpdateItems ''alice'',
                 FinishUpgrade, Close, ConvertItems ''alice''])
   \<and> (InitProfile ''alice'' ''alice'', True) \<in> set (snd (run_dbpw (\<lambda>tr x. False) ''alice''))
   \<and> length (filter (\<lambda>(x, r). x = InitProfile ''alice'' ''alice'')
        (snd (run_dbpw (\<lambda>tr x. False) ''alice''))) = 1
   \<and> run_mwst (\<lambda>tr x. False) ''base'' [''base'', ''bob'']
     = (True, returned [Connect, PreUpgrade, GetWallet ''base'', FetchIndyKey ''base'',
                 CreateConfig ''base'', GetWallet ''base'', FetchIndyKey ''base'',
                 InitProfile ''base'' ''base'', UpdateItems ''base'', GetWallet ''bob'',
                 FetchIndyKey ''bob'', InitProfile ''bob'' ''base'', UpdateItems ''bob'',
                 FinishUpgrade, Close, ConvertItems ''base'', ConvertItems ''bob''])
   \<and> (InitProfile ''base'' ''base'', True)
        \<in> set (snd (run_mwst (\<lambda>tr x. False) ''base'' [''base'', ''bob'']))
   \<and> length (filter (\<lambda>(x, r). x = InitProfile ''base'' ''base'')
        (snd (run_mwst (\<lambda>tr x. False) ''base'' [''base'', ''bob'']))) = 1
   \<and> (InitProfile ''bob'' ''base'', True)
        \<in> set (snd (run_mwst (\<lambda>tr x. False) ''base'' [''base'', ''bob'']))
   \<and> length (filter (\<lambda>(x, r). x = InitProfile ''bob'' ''base'')
        (snd (run_mwst (\<lambda>tr x. False) ''base'' [''base'', ''bob'']))) = 1
   \<and> run_mwst (\<lambda>tr x. x = UpdateItems ''bob'') ''base'' [''base'', ''bob'']
     = (False, returned [Connect, PreUpgrade, GetWallet ''base'', FetchIndyKey ''base'',
                  CreateConfig ''base'', GetWallet ''base'', FetchIndyKey ''base'',
                  InitProfile ''base'' ''base'', UpdateItems ''base'', GetWallet ''bob'',
                  FetchIndyKey ''bob'', InitProfile ''bob'' ''base'']
               @ [(UpdateItems ''bob'', False), (Close, True)])
   \<and> (InitProfile ''bob'' ''base'', True)
        \<in> set (snd (run_mwst (\<lambda>tr x. x = UpdateItems ''bob'') ''base'' [''base'', ''bob'']))
   \<and> length (filter (\<lambda>(x, r). x = InitProfile ''bob'' ''base'')
        (snd (run_mwst (\<lambda>tr x. x = UpdateItems ''bob'') ''base'' [''base'', ''bob'']))) = 1
   \<and> run_dbpw (\<lambda>tr x. x = FetchIndyKey ''alice'') ''alice''
     = (False, returned [Connect, GetWallet ''alice'', PreUpgrade]
               @ [(FetchIndyKey ''alice'', False), (Close, True)])
   \<and> dbpw_rekey_wallet stub_prims stub_cbor example_wallet ''alice'' example_keys (\<lambda>_. 1)
     = (None, \<lparr> is_pg = False, pending = [],
                written = [[example_written (replicate 12 1)]],
                profiles = [(''alice'', example_profile (replicate 32 0))] \<rparr>, \<lambda>_. 1)
   \<and> (\<exists>w1 e1.
         init_profile stub_prims stub_cbor example_wallet ''alice'' example_keys (\<lambda>_. 1)
           = Inr (build_profile_key example_keys, w1, e1)
       \<and> profiles w1 = [(''alice'', example_profile (replicate 32 0))]
       \<and> pending w1 = [example_row] \<and> written w1 = []
       \<and> update_items stub_prims example_keys (build_profile_key example_keys) w1 e1
           = (None, \<lparr> is_pg = False, pending = [],
                written = [[example_written (replicate 12 1)]],
                profiles = [(''alice'', example_profile (replicate 32 0))] \<rparr>, \<lambda>_. 1))
   \<and> mwst_rekey_wallet stub_prims stub_cbor example_wallet ''bob'' example_base_keys
        example_keys (\<lambda>_. 1)
     = (None, \<lparr> is_pg = False, pending = [],
                written = [[example_written (replicate 12 1)]],
                profiles = [(''bob'', example_profile (replicate 32 1))] \<rparr>, \<lambda>_. 1)
   \<and> (\<exists>w1 e1.
         mwst_init_profile stub_prims stub_cbor example_wallet ''bob'' example_base_keys
             example_keys (\<lambda>_. 1)
           = Inr (build_profile_key example_keys, w1, e1)
       \<and> profiles w1 = [(''bob'', example_profile (replicate 32 1))]
       \<and> pending w1 = [example_row] \<and> written w1 = []
       \<and> update_items stub_prims example_keys (build_profile_key example_keys) w1 e1
           = (None, \<lparr> is_pg = False, pending = [],
                written = [[example_written (replicate 12 1)]],
                profiles = [(''bob'', example_profile (replicate 32 1))] \<rparr>, \<lambda>_. 1))"
proof -
  have "\<exists>pk w' e'.
       init_profile stub_prims stub_cbor example_wallet ''alice'' example_keys (\<lambda>_. 0)
         = Inr (pk, w', e')"
    by (simp add: init_profile_def encrypt_merged_def urandom_def stub_encrypt_def
        example_keys_def CHACHAPOLY_NONCE_LEN_def Let_def)
  then obtain pk w' e' where
    i1: "init_profile stub_prims stub_cbor example_wallet ''alice'' example_keys (\<lambda>_. 0)
           = Inr (pk, w', e')"
    by blast
  have "\<exists>pk w' e'.
       mwst_init_profile stub_prims stub_cbor example_wallet ''bob'' example_base_keys
           example_keys (\<lambda>_. 0)
         = Inr (pk, w', e')"
    by (simp add: mwst_init_profile_def encrypt_merged_def urandom_def stub_encrypt_def
        example_keys_def example_base_keys_def CHACHAPOLY_NONCE_LEN_def Let_def)
  then obtain pk2 w2 e2 where
    i2: "mwst_init_profile stub_prims stub_cbor example_wallet ''bob'' example_base_keys
           example_keys (\<lambda>_. 0) = Inr (pk2, w2, e2)"
    by blast
  define good where "good = run_dbpw (\<lambda>tr x. False) ''alice''"
  define bad where "bad = run_dbpw (\<lambda>tr x. x = FetchIndyKey ''alice'') ''alice''"
  define mgood where "mgood = run_mwst (\<lambda>tr x. False) ''base'' [''base'', ''bob'']"
  define mbad where
    "mbad = run_mwst (\<lambda>tr x. x = UpdateItems ''bob'') ''base'' [''base'', ''bob'']"
  have good: "good = (True, returned [Connect, GetWallet ''alice'', PreUpgrade,
                 FetchIndyKey ''alice'', CreateConfig ''alice'', InitProfile ''alice'' ''alice'',
                 UpdateItems ''alice'', FinishUpgrade, Close, ConvertItems ''alice''])"
    by (simp add: good_def run_dbpw_def run_sequence_def try_finally_def call_def dbpw_steps_def)
  have bad: "bad = (False, returned [Connect, GetWallet ''alice'', PreUpgrade]
               @ [(FetchIndyKey ''alice'', False), (Close, True)])"
    by (simp add: bad_def run_dbpw_def run_sequence_def try_finally_def call_def dbpw_steps_def)
  have mgood: "mgood = (True, returned [Connect, PreUpgrade, GetWallet ''base'',
                 FetchIndyKey ''base'', CreateConfig ''base'', GetWallet ''base'',
                 FetchIndyKey ''base'', InitProfile ''base'' ''base'', UpdateItems ''base'',
                 GetWallet ''bob'', FetchIndyKey ''bob'', InitProfile ''bob'' ''base'',
                 UpdateItems ''bob'', FinishUpgrade, Close, ConvertItems ''base'',
                 ConvertItems ''bob''])"
    by (simp add: mgood_def run_mwst_def run_sequence_def try_finally_def call_def mwst_steps_def)
  have mbad: "mbad = (False, returned [Connect, PreUpgrade, GetWallet ''base'',
                  FetchIndyKey ''base'', CreateConfig ''base'', GetWallet ''base'',
                  FetchIndyKey ''base'', InitProfile ''base'' ''base'', UpdateItems ''base'',
                  GetWallet ''bob'', FetchIndyKey ''bob'', InitProfile ''bob'' ''base'']
               @ [(UpdateItems ''bob'', False), (Close, True)])"
    by (simp add: mbad_def run_mwst_def run_sequence_def try_finally_def call_def mwst_steps_def)
  have r1: "run_dbpw (\<lambda>tr x. False) ''alice'' = (True, snd good)"
    using good by (simp add: good_def)
  have r2: "run_mwst (\<lambda>tr x. False) ''base'' [''base'', ''bob''] = (True, snd mgood)"
    using mgood by (simp add: mgood_def)
  have r3: "run_mwst (\<lambda>tr x. x = UpdateItems ''bob'') ''base'' [''base'', ''bob'']
              = (False, snd mbad)"
    using mbad by (simp add: mbad_def)
  have d: "distinct [''base'', ''bob'']" by simp
  have u3: "UpdateItems ''bob'' \<in> fst ` set (snd mbad)"
    by (simp add: mbad)
  have n2: "''base'' \<in> set [''base'', ''bob'']" "''bob'' \<in> set [''base'', ''bob'']"
    by simp_all
  from profile_key_built_and_persisted [where P = stub_prims and cbor_dumps = stub_cbor
      and w = example_wallet and name = "''alice''" and ik = example_keys and e = "\<lambda>_. 0"
      and pk = pk and w' = w' and e' = e' and raises = "\<lambda>tr x. False" and ok = True
      and tr = "snd good"]
    i1 r1
  have a: "pk = build_profile_key example_keys"
    "\<exists>ct. aead_encrypt stub_prims (stub_cbor pk) (map (\<lambda>_. 0) [0..<12]) (ik_master example_keys)
             = Inr ct
         \<and> profiles w' = profiles example_wallet @ [(''alice'', map (\<lambda>_. 0) [0..<12] @ ct)]"
    "returned_before (InitProfile ''alice'' ''alice'') (UpdateItems ''alice'') (snd good)"
    "length (filter (\<lambda>(x, r). x = InitProfile ''alice'' ''alice'') (snd good)) \<le> 1"
    "(InitProfile ''alice'' ''alice'', True) \<in> set (snd good)"
    "length (filter (\<lambda>(x, r). x = InitProfile ''alice'' ''alice'') (snd good)) = 1"
    by blast+
  from profile_key_built_and_persisted [where P = stub_prims and cbor_dumps = stub_cbor
      and w = example_wallet and name = "''bob''" and ik = example_keys
      and base_ik = example_base_keys and e = "\<lambda>_. 0"
      and pk = pk2 and w' = w2 and e' = e2 and raises = "\<lambda>tr x. False" and ok = True
      and tr = "snd mgood" and base = "''base''" and names = "[''base'', ''bob'']"
      and m = "''bob''"]
    i2 r2 d n2
  have b: "pk2 = build_profile_key example_keys"
    "\<exists>ct. aead_encrypt stub_prims (stub_cbor pk2) (map (\<lambda>_. 0) [0..<12])
             (ik_master example_base_keys) = Inr ct
         \<and> profiles w2 = profiles example_wallet @ [(''bob'', map (\<lambda>_. 0) [0..<12] @ ct)]"
    "returned_before (InitProfile ''bob'' ''base'') (UpdateItems ''bob'') (snd mgood)"
    "length (filter (\<lambda>(x, r). x = InitProfile ''bob'' ''base'') (snd mgood)) \<le> 1"
    "(InitProfile ''bob'' ''base'', True) \<in> set (snd mgood)"
    "length (filter (\<lambda>(x, r). x = InitProfile ''bob'' ''base'') (snd mgood)) = 1"
    by blast+
  from profile_key_built_and_persisted [where raises = "\<lambda>tr x. False" and ok = True
      and tr = "snd mgood" and base = "''base''" and names = "[''base'', ''bob'']"
      and m = "''base''"]
    r2 d n2
  have c: "(InitProfile ''base'' ''base'', True) \<in> set (snd mgood)"
    "length (filter (\<lambda>(x, r). x = InitProfile ''base'' ''base'') (snd mgood)) = 1"
    by blast+
  from profile_key_built_and_persisted [where raises = "\<lambda>tr x. x = UpdateItems ''bob''"
      and ok = False and tr = "snd mbad" and base = "''base''"
      and names = "[''base'', ''bob'']" and m = "''bob''"]
    r3 d u3
  have f: "(InitProfile ''bob'' ''base'', True) \<in> set (snd mbad)"
    "length (filter (\<lambda>(x, r). x = InitProfile ''bob'' ''base'') (snd mbad)) = 1"
    by blast+
  from a(2) obtain ct where ct:
    "aead_encrypt stub_prims (stub_cbor pk) (map (\<lambda>_. 0) [0..<12]) (ik_master example_keys)
       = Inr ct"
    "profiles w' = profiles example_wallet @ [(''alice'', map (\<lambda>_. 0) [0..<12] @ ct)]"
    by blast
  from b(2) obtain ct2 where ct2:
    "aead_encrypt stub_prims (stub_cbor pk2) (map (\<lambda>_. 0) [0..<12])
       (ik_master example_base_keys) = Inr ct2"
    "profiles w2 = profiles example_wallet @ [(''bob'', map (\<lambda>_. 0) [0..<12] @ ct2)]"
    by blast
  have p1: "\<exists>pk w' e' ct.
       init_profile stub_prims stub_cbor example_wallet ''alice'' example_keys (\<lambda>_. 0)
         = Inr (pk, w', e')
     \<and> pk = build_profile_key example_keys
     \<and> aead_encrypt stub_prims (stub_cbor pk) (map (\<lambda>_. 0) [0..<12]) (ik_master example_keys)
         = Inr ct
     \<and> profiles w' = profiles example_wallet @ [(''alice'', map (\<lambda>_. 0) [0..<12] @ ct)]"
    using i1 a(1) ct by blast
  have p2: "\<exists>pk w' e' ct.
       mwst_init_profile stub_prims stub_cbor example_wallet ''bob'' example_base_keys
           example_keys (\<lambda>_. 0)
         = Inr (pk, w', e')
     \<and> pk = build_profile_key example_keys
     \<and> aead_encrypt stub_prims (stub_cbor pk) (map (\<lambda>_. 0) [0..<12])
           (ik_master example_base_keys)
         = Inr ct
     \<and> profiles w' = profiles example_wallet @ [(''bob'', map (\<lambda>_. 0) [0..<12] @ ct)]"
    using i2 b(1) ct2 by blast
  have ew: "profiles example_wallet = []" "pending example_wallet = [example_row]"
    "written example_wallet = []"
    by (simp_all add: example_wallet_def)
  define final_a where "final_a = \<lparr> is_pg = False, pending = [],
                written = [[example_written (replicate 12 1)]],
                profiles = [(''alice'', example_profile (replicate 32 0))] \<rparr>"
  define final_b where "final_b = \<lparr> is_pg = False, pending = [],
                written = [[example_written (replicate 12 1)]],
                profiles = [(''bob'', example_profile (replicate 32 1))] \<rparr>"
  note completed_a = profile_key_built_and_persisted [where P = stub_prims
      and cbor_dumps = stub_cbor and w = example_wallet and name = "''alice''"
      and ik = example_keys and e = "\<lambda>_. 1" and ?w2.0 = final_a and ?e2.0 = "\<lambda>_. 1",
      THEN conjunct2, THEN conjunct2, THEN conjunct2, THEN conjunct2, THEN conjunct2,
      THEN conjunct2, THEN conjunct2, THEN conjunct2, THEN conjunct2, THEN conjunct2,
      THEN conjunct1, THEN mp, OF example_dbpw_rekey [folded final_a_def]]
  from completed_a
  obtain w1 e1 ct where s1:
    "init_profile stub_prims stub_cbor example_wallet ''alice'' example_keys (\<lambda>_. 1)
       = Inr (build_profile_key example_keys, w1, e1)"
    "profiles w1 = profiles example_wallet @ [(''alice'', map (\<lambda>_. 1) [0..<12] @ ct)]"
    "pending w1 = pending example_wallet" "written w1 = written example_wallet"
    "update_items stub_prims example_keys (build_profile_key example_keys) w1 e1
       = (None, final_a, \<lambda>_. 1)"
    by blast
  from s1(1) example_init_profile
  have "w1 = example_wallet \<lparr> profiles := [(''alice'', example_profile (replicate 32 0))] \<rparr>"
    by simp
  then have "profiles w1 = [(''alice'', example_profile (replicate 32 0))]" by simp
  with s1 ew have q1: "\<exists>w1 e1.
         init_profile stub_prims stub_cbor example_wallet ''alice'' example_keys (\<lambda>_. 1)
           = Inr (build_profile_key example_keys, w1, e1)
       \<and> profiles w1 = [(''alice'', example_profile (replicate 32 0))]
       \<and> pending w1 = [example_row] \<and> written w1 = []
       \<and> update_items stub_prims example_keys (build_profile_key example_keys) w1 e1
           = (None, \<lparr> is_pg = False, pending = [],
                written = [[example_written (replicate 12 1)]],
                profiles = [(''alice'', example_profile (replicate 32 0))] \<rparr>, \<lambda>_. 1)"
    by (intro exI [of _ w1] exI [of _ e1]) (simp add: final_a_def)
  note completed_b = profile_key_built_and_persisted [where P = stub_prims
      and cbor_dumps = stub_cbor and w = example_wallet and name = "''bob''"
      and ik = example_keys and base_ik = example_base_keys and e = "\<lambda>_. 1"
      and ?w2.0 = final_b and ?e2.0 = "\<lambda>_. 1",
      THEN conjunct2, THEN conjunct2, THEN conjunct2, THEN conjunct2, THEN conjunct2,
      THEN conjunct2, THEN conjunct2, THEN conjunct2, THEN conjunct2, THEN conjunct2,
      THEN conjunct2, THEN conjunct2, THEN mp, OF example_mwst_rekey [folded final_b_def]]
  from completed_b
  obtain v1 g1 ct' where s2:
    "mwst_init_profile stub_prims stub_cbor example_wallet ''bob'' example_base_keys
         example_keys (\<lambda>_. 1)
       = Inr (build_profile_key example_keys, v1, g1)"
    "profiles v1 = profiles example_wallet @ [(''bob'', map (\<lambda>_. 1) [0..<12] @ ct')]"
    "pending v1 = pending example_wallet" "written v1 = written example_wallet"
    "update_items stub_prims example_keys (build_profile_key example_keys) v1 g1
       = (None, final_b, \<lambda>_. 1)"
    by blast
  from s2(1) example_mwst_init_profile
  have "v1 = example_wallet \<lparr> profiles := [(''bob'', example_profile (replicate 32 1))] \<rparr>"
    by simp
  then have "profiles v1 = [(''bob'', example_profile (replicate 32 1))]" by simp
  with s2 ew have q2: "\<exists>w1 e1.
         mwst_init_profile stub_prims stub_cbor example_wallet ''bob'' example_base_keys
             example_keys (\<lambda>_. 1)
           = Inr (build_profile_key example_keys, w1, e1)
       \<and> profiles w1 = [(''bob'', example_profile (replicate 32 1))]
       \<and> pending w1 = [example_row] \<and> written w1 = []
       \<and> update_items stub_prims example_keys (build_profile_key example_keys) w1 e1
           = (None, \<lparr> is_pg = False, pending = [],
                written = [[example_written (replicate 12 1)]],
                profiles = [(''bob'', example_profile (replicate 32 1))] \<rparr>, \<lambda>_. 1)"
    by (intro exI [of _ v1] exI [of _ g1]) (simp add: final_b_def)
  note runs = good [unfolded good_def] mgood [unfolded mgood_def] mbad [unfolded mbad_def]
    bad [unfolded bad_def]
  note facts = a(3-6) b(3-6) c f
  from p1 p2 d runs facts [unfolded good_def mgood_def mbad_def]
    example_dbpw_rekey q1 example_mwst_rekey q2
  show ?thesis
    by (intro conjI) assumption+
qed

end
